(* ===== verification/Communo_Prelude.thy ===== *)
theory Communo_Prelude
  imports Main "HOL-Library.Word"
begin

text \<open>
  Shared vocabulary of the development: the C++ integer types as words, byte strings, the
  byte order of a host and the memory image of an integer, the network byte-order
  conversions, the faults that a C++ statement can raise, bounded memory reads, and the
  decimal printing that \<open>std::to_string\<close> performs on integers. The locale
  \<open>byte_codec\<close> is the contract of every fixed-width field of the wire protocol.
\<close>

section \<open>Types\<close>

type_synonym u8 = "8 word"
type_synonym u16 = "16 word"
type_synonym u32 = "32 word"
type_synonym u64 = "64 word"
type_synonym byte = "8 word"
type_synonym bytes = "8 word list"

text \<open>
  What a statement of the program can end in instead of a value: undefined behaviour the
  model keeps visible (a read outside an object, a call on a freed TLS object or through a pointer
  that was never set, a descriptor
  that does not fit an \<open>fd_set\<close>, a format directive without an argument), a standard exception with its text, or a loop that
  never ends.
\<close>

datatype fault =
    Out_of_bounds
  | Use_after_free
  | Uninitialised
  | Fd_set_overflow
  | Runtime_error string
  | Invalid_argument string
  | Out_of_range string
  | Length_error
  | Format_string
  | Diverges

text \<open>Packet sizes are written as two bytes of header plus the rest, and stay so.\<close>

declare add_2_eq_Suc [simp del] add_2_eq_Suc' [simp del]

named_theorems wire_simps \<open>equations that compute wire formats\<close>
named_theorems fault_simps \<open>equations that decide whether a bounded operation faults\<close>

section \<open>Little-endian digits\<close>

primrec nat_le :: "nat \<Rightarrow> nat \<Rightarrow> bytes" where
  "nat_le 0 x = []"
| "nat_le (Suc n) x = word_of_nat (x mod 256) # nat_le n (x div 256)"

primrec le_nat :: "bytes \<Rightarrow> nat" where
  "le_nat [] = 0"
| "le_nat (b # bs) = unat b + 256 * le_nat bs"

lemma length_nat_le [simp]: "length (nat_le n x) = n"
  by (induction n arbitrary: x) simp_all

lemma unat_byte_of_mod [simp]: "unat (word_of_nat (x mod 256) :: byte) = x mod 256"
  by (simp add: unat_of_nat)

lemma le_nat_nat_le: "le_nat (nat_le n x) = x mod 256 ^ n"
proof (induction n arbitrary: x)
  case 0
  then show ?case by simp
next
  case (Suc n)
  have "x mod (256 * 256 ^ n) = 256 * (x div 256 mod 256 ^ n) + x mod 256"
    by (rule mod_mult2_eq)
  then show ?case by (simp add: Suc.IH)
qed

lemma le_nat_less: "le_nat bs < 256 ^ length bs"
proof (induction bs)
  case Nil
  then show ?case by simp
next
  case (Cons b bs)
  have "unat b < 256"
    using unsigned_less [of b] by simp
  with Cons.IH show ?case by simp
qed

lemma nat_le_le_nat: "nat_le (length bs) (le_nat bs) = bs"
proof (induction bs)
  case Nil
  then show ?case by simp
next
  case (Cons b bs)
  have "unat b < 256"
    using unsigned_less [of b] by simp
  then show ?case by (simp add: Cons.IH)
qed

section \<open>Memory images and network byte order\<close>

text \<open>
  The byte order of the machine the program runs on. \<open>mem_bytes e w\<close> is what
  \<open>reinterpret_cast<const char *>(&w)\<close> with \<open>sizeof(w)\<close> shows of a value, and
  \<open>of_mem e bs\<close> is what \<open>std::memcpy(&w, p, sizeof(w))\<close> makes of bytes.
\<close>

datatype endian = Little_endian | Big_endian

definition mem_bytes :: "endian \<Rightarrow> 'a::len word \<Rightarrow> bytes" where
  "mem_bytes e w =
     (let l = nat_le (LENGTH('a) div 8) (unat w)
      in case e of Little_endian \<Rightarrow> l | Big_endian \<Rightarrow> rev l)"

definition of_mem :: "endian \<Rightarrow> bytes \<Rightarrow> 'a::len word" where
  "of_mem e bs =
     word_of_nat (le_nat (case e of Little_endian \<Rightarrow> bs | Big_endian \<Rightarrow> rev bs))"

definition bswap :: "'a::len word \<Rightarrow> 'a word" where
  "bswap w = word_of_nat (le_nat (rev (nat_le (LENGTH('a) div 8) (unat w))))"

text \<open>\<open>htons\<close>, \<open>ntohs\<close>, \<open>htobe64\<close> and \<open>be64toh\<close> of the C library.\<close>

definition to_net :: "endian \<Rightarrow> 'a::len word \<Rightarrow> 'a word" where
  "to_net e w = (case e of Little_endian \<Rightarrow> bswap w | Big_endian \<Rightarrow> w)"

definition be_bytes :: "'a::len word \<Rightarrow> bytes" where
  "be_bytes w = rev (nat_le (LENGTH('a) div 8) (unat w))"

lemma length_mem_bytes [simp]: "length (mem_bytes e (w :: 'a::len word)) = LENGTH('a) div 8"
  by (simp add: mem_bytes_def Let_def split: endian.split)

lemma length_be_bytes [simp]: "length (be_bytes (w :: 'a::len word)) = LENGTH('a) div 8"
  by (simp add: be_bytes_def)

lemma unat_lt_256_pow:
  assumes "8 dvd LENGTH('a)"
  shows "unat (w :: 'a::len word) < 256 ^ (LENGTH('a) div 8)"
proof -
  have "(256 :: nat) ^ (LENGTH('a) div 8) = 2 ^ (8 * (LENGTH('a) div 8))"
    by (simp add: power_mult)
  with assms have "(256 :: nat) ^ (LENGTH('a) div 8) = 2 ^ LENGTH('a)"
    by simp
  then show ?thesis using unsigned_less [of w] by simp
qed

lemma of_mem_mem_bytes:
  assumes "8 dvd LENGTH('a)"
  shows "of_mem e (mem_bytes e w) = (w :: 'a::len word)"
  using unat_lt_256_pow [OF assms, of w]
  by (cases e) (simp_all add: of_mem_def mem_bytes_def Let_def le_nat_nat_le)

lemma mem_bytes_to_net:
  assumes "8 dvd LENGTH('a)"
  shows "mem_bytes e (to_net e w) = be_bytes (w :: 'a::len word)"
proof (cases e)
  case Little_endian
  let ?r = "rev (nat_le (LENGTH('a) div 8) (unat w))"
  have lt: "le_nat ?r < 2 ^ LENGTH('a)"
  proof -
    have "le_nat ?r < 256 ^ (LENGTH('a) div 8)"
      using le_nat_less [of ?r] by simp
    also have "(256 :: nat) ^ (LENGTH('a) div 8) = 2 ^ (8 * (LENGTH('a) div 8))"
      by (simp add: power_mult)
    finally show ?thesis using assms by simp
  qed
  then have "unat (word_of_nat (le_nat ?r) :: 'a word) = le_nat ?r"
    by (simp add: unat_of_nat)
  moreover have "nat_le (LENGTH('a) div 8) (le_nat ?r) = ?r"
    using nat_le_le_nat [of ?r] by simp
  ultimately show ?thesis
    by (simp add: Little_endian to_net_def bswap_def mem_bytes_def be_bytes_def Let_def)
next
  case Big_endian
  then show ?thesis by (simp add: to_net_def mem_bytes_def be_bytes_def Let_def)
qed

lemma to_net_of_mem_be_bytes:
  assumes "8 dvd LENGTH('a)"
  shows "to_net e (of_mem e (be_bytes w)) = (w :: 'a::len word)"
proof (cases e)
  case Little_endian
  let ?r = "rev (nat_le (LENGTH('a) div 8) (unat w))"
  have "le_nat ?r < 256 ^ (LENGTH('a) div 8)"
    using le_nat_less [of ?r] by simp
  also have "(256 :: nat) ^ (LENGTH('a) div 8) = 2 ^ (8 * (LENGTH('a) div 8))"
    by (simp add: power_mult)
  finally have "unat (word_of_nat (le_nat ?r) :: 'a word) = le_nat ?r"
    using assms by (simp add: unat_of_nat)
  moreover have "nat_le (LENGTH('a) div 8) (le_nat ?r) = ?r"
    using nat_le_le_nat [of ?r] by simp
  ultimately show ?thesis
    using unat_lt_256_pow [OF assms, of w]
    by (simp add: Little_endian to_net_def bswap_def of_mem_def be_bytes_def le_nat_nat_le)
next
  case Big_endian
  then show ?thesis
    using unat_lt_256_pow [OF assms, of w]
    by (simp add: to_net_def of_mem_def be_bytes_def le_nat_nat_le)
qed

section \<open>The contract of a fixed-width field\<close>

locale byte_codec =
  fixes width :: nat
    and enc :: "'a \<Rightarrow> bytes"
    and dec :: "bytes \<Rightarrow> 'a"
  assumes enc_length: "length (enc x) = width"
    and dec_enc: "dec (enc x) = x"
begin

lemma enc_inject: "enc x = enc y \<longleftrightarrow> x = y"
  by (metis dec_enc)

lemma take_enc: "take width (enc x @ rest) = enc x"
  by (simp add: enc_length)

lemma drop_enc: "drop width (enc x @ rest) = rest"
  by (simp add: enc_length)

lemma dec_at:
  assumes "length pre = off"
  shows "dec (take width (drop off (pre @ enc x @ rest))) = x"
  using assms by (simp add: enc_length dec_enc)

lemma dec_front: "dec (take width (enc x @ rest)) = x"
  using dec_at [of "[]" 0] by simp

end

interpretation mem8: byte_codec 1 "mem_bytes e :: 8 word \<Rightarrow> bytes" "of_mem e" for e
  by unfold_locales (simp_all add: of_mem_mem_bytes)

interpretation mem16: byte_codec 2 "mem_bytes e :: 16 word \<Rightarrow> bytes" "of_mem e" for e
  by unfold_locales (simp_all add: of_mem_mem_bytes)

interpretation mem32: byte_codec 4 "mem_bytes e :: 32 word \<Rightarrow> bytes" "of_mem e" for e
  by unfold_locales (simp_all add: of_mem_mem_bytes)

interpretation mem64: byte_codec 8 "mem_bytes e :: 64 word \<Rightarrow> bytes" "of_mem e" for e
  by unfold_locales (simp_all add: of_mem_mem_bytes)

interpretation net16: byte_codec 2 "be_bytes :: 16 word \<Rightarrow> bytes" "\<lambda>bs. to_net e (of_mem e bs)" for e
  by unfold_locales (simp_all add: to_net_of_mem_be_bytes)

interpretation net64: byte_codec 8 "be_bytes :: 64 word \<Rightarrow> bytes" "\<lambda>bs. to_net e (of_mem e bs)" for e
  by unfold_locales (simp_all add: to_net_of_mem_be_bytes)

lemma mem_net16 [simp]: "mem_bytes e (to_net e (w :: 16 word)) = be_bytes w"
  by (rule mem_bytes_to_net) simp

lemma mem_net64 [simp]: "mem_bytes e (to_net e (w :: 64 word)) = be_bytes w"
  by (rule mem_bytes_to_net) simp

lemma mem_bytes_u8 [simp]: "mem_bytes e (w :: 8 word) = [w]"
proof -
  have "unat w < 256" using unsigned_less [of w] by simp
  then show ?thesis by (cases e) (simp_all add: mem_bytes_def Let_def)
qed

lemma of_mem_u8 [simp]: "of_mem e [b] = (b :: 8 word)"
  by (cases e) (simp_all add: of_mem_def)

section \<open>Bounded reads\<close>

text \<open>
  A \<open>memcpy\<close> of \<open>n\<close> bytes from offset \<open>off\<close> of an object of \<open>length buf\<close>
  bytes. Outside the object the behaviour is undefined, which the model reports.
\<close>

definition read_at :: "bytes \<Rightarrow> nat \<Rightarrow> nat \<Rightarrow> fault + bytes" where
  "read_at buf off n =
     (if off + n \<le> length buf then Inr (take n (drop off buf)) else Inl Out_of_bounds)"

lemma read_at_ok [fault_simps]:
  "off + n \<le> length buf \<Longrightarrow> read_at buf off n = Inr (take n (drop off buf))"
  by (simp add: read_at_def)

lemma read_at_fault [fault_simps]:
  "length buf < off + n \<Longrightarrow> read_at buf off n = Inl Out_of_bounds"
  by (simp add: read_at_def)

lemma read_at_InrD: "read_at buf off n = Inr bs \<Longrightarrow> off + n \<le> length buf \<and> bs = take n (drop off buf)"
  by (auto simp: read_at_def split: if_splits)

section \<open>Text\<close>

definition ascii :: "string \<Rightarrow> bytes" where
  "ascii s = map (\<lambda>c. word_of_nat (of_char c)) s"

lemma ascii_append [simp]: "ascii (s @ t) = ascii s @ ascii t"
  by (simp add: ascii_def)

lemma length_ascii [simp]: "length (ascii s) = length s"
  by (simp add: ascii_def)

lemma byte_of_char_inject: "(word_of_nat (of_char c) :: byte) = word_of_nat (of_char d) \<longleftrightarrow> c = d"
proof -
  have "(of_char c :: nat) < 256" and "(of_char d :: nat) < 256"
    by (simp_all add: of_char_def)
  then show ?thesis
    by (simp add: word_of_nat_eq_iff take_bit_eq_mod)
qed

lemma ascii_inject [simp]: "ascii s = ascii t \<longleftrightarrow> s = t"
  unfolding ascii_def by (rule inj_map_eq_map) (simp add: inj_on_def byte_of_char_inject)

text \<open>The C string in a buffer: everything before the first NUL byte.\<close>

definition c_str :: "bytes \<Rightarrow> bytes" where
  "c_str bs = takeWhile (\<lambda>b. b \<noteq> 0) bs"

lemma c_str_id: "0 \<notin> set bs \<Longrightarrow> c_str bs = bs"
  by (auto simp: c_str_def)

lemma c_str_append_id: "0 \<notin> set as \<Longrightarrow> c_str (as @ bs) = as @ c_str bs"
  unfolding c_str_def by (rule takeWhile_append2) auto

lemma length_c_str: "length (c_str bs) \<le> length bs"
  by (simp add: c_str_def length_takeWhile_le)

text \<open>\<open>std::to_string\<close> of an unsigned integer, and of a signed one.\<close>

definition digit_char :: "nat \<Rightarrow> char" where
  "digit_char d = char_of (48 + d)"

fun show_nat :: "nat \<Rightarrow> string" where
  "show_nat n = (if n < 10 then [digit_char n] else show_nat (n div 10) @ [digit_char (n mod 10)])"

declare show_nat.simps [simp del]

definition show_int :: "int \<Rightarrow> string" where
  "show_int i = (if i < 0 then CHR ''-'' # show_nat (nat (- i)) else show_nat (nat i))"

text \<open>Signed division and remainder of C++, which round towards zero.\<close>

definition c_div :: "int \<Rightarrow> int \<Rightarrow> int" where
  "c_div a b = sgn a * sgn b * (\<bar>a\<bar> div \<bar>b\<bar>)"

definition c_mod :: "int \<Rightarrow> int \<Rightarrow> int" where
  "c_mod a b = a - b * c_div a b"

lemma c_div_nonneg: "0 \<le> a \<Longrightarrow> 0 < b \<Longrightarrow> c_div a b = a div b"
  and c_mod_nonneg: "0 \<le> a \<Longrightarrow> 0 < b \<Longrightarrow> c_mod a b = a mod b"
proof -
  assume "0 \<le> a" "0 < b"
  then show "c_div a b = a div b" by (cases "a = 0") (simp_all add: c_div_def)
  then show "c_mod a b = a mod b" by (simp add: c_mod_def minus_mult_div_eq_mod)
qed

section \<open>Lists and sums\<close>

lemma map_update_same [simp]: "(map f xs)[i := f (xs ! i)] = map f xs"
  by (metis list_update_id map_update)

lemma sum_case_InrE:
  assumes "(case r of Inl e \<Rightarrow> Inl e | Inr x \<Rightarrow> f x) = Inr y"
  obtains x where "r = Inr x" and "f x = Inr y"
  using assms by (cases r) auto

section \<open>Invariants of a transition system\<close>

text \<open>
  The contract under which a property of single steps becomes a property of runs. Every
  state machine of the development is an instance.
\<close>

locale invariant_system =
  fixes step :: "'s \<Rightarrow> 's \<Rightarrow> bool"
    and good :: "'s \<Rightarrow> bool"
  assumes step_good: "step s t \<Longrightarrow> good s \<Longrightarrow> good t"
begin

lemma run_good: "step\<^sup>*\<^sup>* s t \<Longrightarrow> good s \<Longrightarrow> good t"
  by (induction rule: rtranclp_induct) (auto intro: step_good)

end

end
