(* ===== verification/Logging.thy ===== *)
theory Logging
  imports Communo_Prelude
begin

text \<open>
  \<open>src/common/Logging.{h,cpp}\<close>: the logger's two filters and what one call of \<open>log\<close>
  writes where. The file, the system log and the error text that a \<open>%m\<close> directive inserts
  belong to the environment.
\<close>

section \<open>Flags\<close>

datatype eLoggingOutputFlags = LOG_NONE | LOG_FILE | LOG_SYSTEM | LOG_CONSOLE

primrec output_code :: "eLoggingOutputFlags \<Rightarrow> u16" where
  "output_code LOG_NONE = 0"
| "output_code LOG_FILE = 1"
| "output_code LOG_SYSTEM = 2"
| "output_code LOG_CONSOLE = 4"

datatype eLoggingFlags = LOG_FLAG_DEBUG | LOG_FLAG_INFO | LOG_FLAG_WARN | LOG_FLAG_ERROR

primrec flag_code :: "eLoggingFlags \<Rightarrow> u16" where
  "flag_code LOG_FLAG_DEBUG = 1"
| "flag_code LOG_FLAG_INFO = 2"
| "flag_code LOG_FLAG_WARN = 4"
| "flag_code LOG_FLAG_ERROR = 8"

datatype eLoggingLevelFlags = LOG_LEVEL_DEBUG | LOG_LEVEL_INFO | LOG_LEVEL_WARN | LOG_LEVEL_ERROR

primrec level_code :: "eLoggingLevelFlags \<Rightarrow> u16" where
  "level_code LOG_LEVEL_DEBUG =
     or (or (or (flag_code LOG_FLAG_DEBUG) (flag_code LOG_FLAG_INFO)) (flag_code LOG_FLAG_WARN))
        (flag_code LOG_FLAG_ERROR)"
| "level_code LOG_LEVEL_INFO =
     or (or (flag_code LOG_FLAG_INFO) (flag_code LOG_FLAG_WARN)) (flag_code LOG_FLAG_ERROR)"
| "level_code LOG_LEVEL_WARN = or (flag_code LOG_FLAG_WARN) (flag_code LOG_FLAG_ERROR)"
| "level_code LOG_LEVEL_ERROR = flag_code LOG_FLAG_ERROR"

section \<open>The logger\<close>

record Logger =
  m_LogLevelFilter :: u16
  m_LogOutputFilter :: u16
  m_LogOutputFile :: bytes

definition Logger_new :: Logger where
  "Logger_new =
     \<lparr>m_LogLevelFilter = level_code LOG_LEVEL_INFO, m_LogOutputFilter = output_code LOG_CONSOLE,
      m_LogOutputFile = []\<rparr>"

definition setLogLevel :: "eLoggingLevelFlags \<Rightarrow> Logger \<Rightarrow> Logger" where
  "setLogLevel level L = L\<lparr>m_LogLevelFilter := level_code level\<rparr>"

definition setLogOutput :: "eLoggingOutputFlags \<Rightarrow> Logger \<Rightarrow> Logger" where
  "setLogOutput outFlags L = L\<lparr>m_LogOutputFilter := output_code outFlags\<rparr>"

text \<open>Priorities of the system log, and what a call writes.\<close>

datatype syslog_level = Sys_ERR | Sys_WARNING | Sys_INFO | Sys_DEBUG

datatype log_event =
    File_line bytes bytes
  | Syslog_line syslog_level bytes
  | Cout_line bytes
  | Cerr_line bytes

record log_env =
  file_opens :: bool
  file_writes :: bool
  errno_text :: bytes

text \<open>
  \<open>syslog(level, fmt)\<close> without further arguments: \<open>%%\<close> prints a percent sign and \<open>%m\<close> the
  error text; any other directive wants an argument that is not there.
\<close>

fun format_no_args :: "bytes \<Rightarrow> bytes \<Rightarrow> fault + bytes" where
  "format_no_args err [] = Inr []"
| "format_no_args err (c # cs) =
     (if c = 37 then
        (case cs of
           [] \<Rightarrow> Inl Format_string
         | d # ds \<Rightarrow>
             (if d = 37 then map_sum id ((#) 37) (format_no_args err ds)
              else if d = 109 then map_sum id ((@) err) (format_no_args err ds)
              else Inl Format_string))
      else map_sum id ((#) c) (format_no_args err cs))"

definition log_file :: "log_env \<Rightarrow> bytes \<Rightarrow> Logger \<Rightarrow> log_event list" where
  "log_file X msg L =
     (if and (m_LogOutputFilter L) (output_code LOG_FILE) \<noteq> 0 then
        (if m_LogOutputFile L \<noteq> [] then
           (if \<not> file_opens X then [Cerr_line (ascii ''Cannot open log file for writing'')]
            else [File_line (m_LogOutputFile L) msg] @
              (if \<not> file_writes X then [Cerr_line (ascii ''Failed to write to log file'')] else []))
         else [])
      else [])"

text \<open>
  The switch compares the flag of the message with the level masks, as the code does.
\<close>

definition syslogLevel :: "eLoggingFlags \<Rightarrow> syslog_level" where
  "syslogLevel level =
     (if flag_code level = level_code LOG_LEVEL_DEBUG then Sys_DEBUG
      else if flag_code level = level_code LOG_LEVEL_INFO then Sys_INFO
      else if flag_code level = level_code LOG_LEVEL_WARN then Sys_WARNING
      else if flag_code level = level_code LOG_LEVEL_ERROR then Sys_ERR
      else Sys_INFO)"

definition log_system :: "log_env \<Rightarrow> eLoggingFlags \<Rightarrow> bytes \<Rightarrow> Logger \<Rightarrow> fault + log_event list" where
  "log_system X level msg L =
     (if and (m_LogOutputFilter L) (output_code LOG_SYSTEM) \<noteq> 0 then
        (case format_no_args (errno_text X) (c_str msg) of
           Inl f \<Rightarrow> Inl f
         | Inr out \<Rightarrow> Inr [Syslog_line (syslogLevel level) out])
      else Inr [])"

definition log_console :: "eLoggingFlags \<Rightarrow> bytes \<Rightarrow> Logger \<Rightarrow> log_event list" where
  "log_console level msg L =
     (if and (m_LogOutputFilter L) (output_code LOG_CONSOLE) \<noteq> 0 then
        (if and (flag_code level) (flag_code LOG_FLAG_ERROR) \<noteq> 0 then [Cerr_line msg] else [Cout_line msg])
      else [])"

definition log_msg :: "log_env \<Rightarrow> eLoggingFlags \<Rightarrow> bytes \<Rightarrow> Logger \<Rightarrow> fault + log_event list" where
  "log_msg X level msg L =
     (if and (m_LogLevelFilter L) (flag_code level) \<noteq> 0 then
        (case log_system X level msg L of
           Inl f \<Rightarrow> Inl f
         | Inr sys \<Rightarrow> Inr (log_file X msg L @ sys @ log_console level msg L))
      else Inr [])"

section \<open>Properties\<close>

text \<open>Flags in order of severity, and the least one that a level lets pass.\<close>

instantiation eLoggingFlags :: linorder
begin

definition less_eq_eLoggingFlags :: "eLoggingFlags \<Rightarrow> eLoggingFlags \<Rightarrow> bool" where
  "f \<le> g \<longleftrightarrow> unat (flag_code f) \<le> unat (flag_code g)"

definition less_eLoggingFlags :: "eLoggingFlags \<Rightarrow> eLoggingFlags \<Rightarrow> bool" where
  "f < g \<longleftrightarrow> unat (flag_code f) < unat (flag_code g)"

instance
proof
  fix f g h :: eLoggingFlags
  show "f < g \<longleftrightarrow> f \<le> g \<and> \<not> g \<le> f"
    by (auto simp: less_eq_eLoggingFlags_def less_eLoggingFlags_def)
  show "f \<le> f" by (simp add: less_eq_eLoggingFlags_def)
  show "f \<le> g \<Longrightarrow> g \<le> h \<Longrightarrow> f \<le> h" by (simp add: less_eq_eLoggingFlags_def)
  show "f \<le> g \<Longrightarrow> g \<le> f \<Longrightarrow> f = g" by (cases f; cases g) (simp_all add: less_eq_eLoggingFlags_def)
  show "f \<le> g \<or> g \<le> f" by (auto simp: less_eq_eLoggingFlags_def)
qed

end

primrec threshold :: "eLoggingLevelFlags \<Rightarrow> eLoggingFlags" where
  "threshold LOG_LEVEL_DEBUG = LOG_FLAG_DEBUG"
| "threshold LOG_LEVEL_INFO = LOG_FLAG_INFO"
| "threshold LOG_LEVEL_WARN = LOG_FLAG_WARN"
| "threshold LOG_LEVEL_ERROR = LOG_FLAG_ERROR"

lemma flag_masks: "and (level_code l) (flag_code f) \<noteq> 0 \<longleftrightarrow> threshold l \<le> f"
  by (cases l; cases f) (simp_all add: less_eq_eLoggingFlags_def)

lemma debug_passes: "LOG_FLAG_DEBUG \<le> f"
  by (cases f) (simp_all add: less_eq_eLoggingFlags_def)

lemma output_masks:
  "and (output_code a) (output_code b) \<noteq> 0 \<longleftrightarrow> a = b \<and> a \<noteq> LOG_NONE"
  by (cases a; cases b) simp_all

lemma syslogLevel_eq: "syslogLevel level = (if level = LOG_FLAG_ERROR then Sys_ERR else Sys_INFO)"
  by (cases level) (simp_all add: syslogLevel_def)

lemma format_plain: "37 \<notin> set msg \<Longrightarrow> format_no_args err msg = Inr msg"
  by (induction err msg rule: format_no_args.induct) auto

lemma format_directive:
  assumes "37 \<notin> set pre" and "d \<noteq> 37" and "d \<noteq> 109"
  shows "format_no_args err (pre @ 37 # d # post) = Inl Format_string"
  using assms(1) by (induction pre) (simp_all add: assms(2,3))

text \<open>
  C39. A logger with one output and a level set by name, as the server configures it,
  writes a message exactly if its flag is at or above the level, to that output and to no
  other; on the console errors go to the error stream. In the system log every message
  that is not an error has the priority of an information, debug messages and warnings
  too, since the switch compares single flags with the level masks.
\<close>

theorem log_filter:
  assumes "37 \<notin> set msg" and "0 \<notin> set msg"
  shows "log_msg X f msg (setLogLevel l (setLogOutput out Logger_new)) = Inr
    (if threshold l \<le> f
     then (case out of
             LOG_SYSTEM \<Rightarrow> [Syslog_line (if f = LOG_FLAG_ERROR then Sys_ERR else Sys_INFO) msg]
           | LOG_CONSOLE \<Rightarrow> [if f = LOG_FLAG_ERROR then Cerr_line msg else Cout_line msg]
           | _ \<Rightarrow> [])
     else [])"
proof -
  have err: "and (flag_code f) (flag_code LOG_FLAG_ERROR) \<noteq> 0 \<longleftrightarrow> f = LOG_FLAG_ERROR"
    by (cases f) simp_all
  have "c_str msg = msg" using assms(2) by (rule c_str_id)
  then show ?thesis
    unfolding log_msg_def log_file_def log_system_def log_console_def setLogLevel_def setLogOutput_def
      Logger_new_def
    by (simp add: flag_masks output_masks err syslogLevel_eq format_plain [OF assms(1)]
        split: eLoggingOutputFlags.split del: flag_code.simps level_code.simps output_code.simps)
qed

definition sample_log_env :: log_env where
  "sample_log_env = \<lparr>file_opens = True, file_writes = True, errno_text = []\<rparr>"

theorem log_filter_witness:
  "log_msg sample_log_env LOG_FLAG_WARN [104, 105] (setLogLevel LOG_LEVEL_INFO (setLogOutput LOG_SYSTEM Logger_new)) =
     Inr [Syslog_line Sys_INFO [104, 105]]"
  using log_filter [of "[104, 105]" sample_log_env LOG_FLAG_WARN LOG_LEVEL_INFO LOG_SYSTEM]
  by (simp add: less_eq_eLoggingFlags_def)

text \<open>
  C40. The message is handed to the system log as the format itself. With debug messages
  enabled, as the option for debugging does, a payload that a client sends and the server
  reports can therefore contain a formatting directive, and the call then reads arguments
  that do not exist.
\<close>

theorem log_format_string:
  assumes "37 \<notin> set pre" and "0 \<notin> set pre" and "d \<noteq> 37" and "d \<noteq> 109" and "d \<noteq> 0"
  shows "log_msg X f (pre @ 37 # d # post) (setLogLevel LOG_LEVEL_DEBUG (setLogOutput LOG_SYSTEM Logger_new)) =
    Inl Format_string"
proof -
  have cut: "c_str (pre @ 37 # d # post) = pre @ 37 # d # c_str post"
    using assms(2,5) by (simp add: c_str_append_id) (simp add: c_str_def)
  have sys: "log_system X f (pre @ 37 # d # post) (setLogLevel LOG_LEVEL_DEBUG (setLogOutput LOG_SYSTEM Logger_new)) =
      Inl Format_string"
    by (simp add: log_system_def setLogLevel_def setLogOutput_def cut format_directive [OF assms(1,3,4)])
  have "and (m_LogLevelFilter (setLogLevel LOG_LEVEL_DEBUG L)) (flag_code f) \<noteq> 0" for L
    using flag_masks [of LOG_LEVEL_DEBUG f] by (simp add: setLogLevel_def debug_passes)
  then show ?thesis by (simp add: log_msg_def sys)
qed

theorem log_format_string_witness:
  "log_msg sample_log_env LOG_FLAG_DEBUG (ascii ''payload: %n'')
     (setLogLevel LOG_LEVEL_DEBUG (setLogOutput LOG_SYSTEM Logger_new)) = Inl Format_string"
proof -
  have "ascii ''payload: %n'' = ascii ''payload: '' @ 37 # 110 # []"
    by (simp add: ascii_def of_char_def)
  then show ?thesis
    using log_format_string [of "ascii ''payload: ''" 110 sample_log_env LOG_FLAG_DEBUG "[]"]
    by (simp add: ascii_def of_char_def)
qed

end
