(* ===== verification/Server_Options.thy ===== *)
theory Server_Options
  imports Logging
begin

text \<open>
  The command line of the server program (class \<open>Options\<close> of \<open>src/server/Main.cpp\<close>), what
  \<open>main\<close> makes of it before the server object exists, and the detachment from the terminal.
\<close>

section \<open>Options\<close>

record Options =
  options_given :: "string list"
  options_error :: string
  options_valid :: bool

definition known_options :: "string list" where
  "known_options = [''no-daemon'', ''debug'', ''help'']"

text \<open>The loop of the constructor over the arguments after the program name.\<close>

fun options_loop :: "string list \<Rightarrow> string list \<Rightarrow> Options" where
  "options_loop [] opts = \<lparr>options_given = opts, options_error = [], options_valid = True\<rparr>"
| "options_loop (arg # args) opts =
     (if length arg < 3 \<or> take 2 arg \<noteq> ''--''
      then \<lparr>options_given = opts, options_error = ''Invalid argument: '' @ arg, options_valid = False\<rparr>
      else
        (let name = drop 2 arg
         in if name \<notin> set known_options
            then \<lparr>options_given = opts, options_error = ''Unknown option: --'' @ name, options_valid = False\<rparr>
            else options_loop args (List.insert name opts)))"

definition Options_new :: "string list \<Rightarrow> Options" where
  "Options_new argv = options_loop (drop 1 argv) []"

definition has_option :: "string \<Rightarrow> Options \<Rightarrow> bool" where
  "has_option name os = (name \<in> set (options_given os))"

text \<open>How \<open>main\<close> proceeds: an exit status, or the daemon flag and the logger to run with.\<close>

datatype launch = Exit_status int | Run bool Logger

definition launch_of :: "string list \<Rightarrow> launch" where
  "launch_of argv =
     (let os = Options_new argv
      in if \<not> options_valid os then Exit_status 1
         else if has_option ''help'' os then Exit_status 0
         else
           (let (daemonize, L) =
                  (if has_option ''no-daemon'' os then (False, setLogOutput LOG_CONSOLE Logger_new)
                   else (True, setLogOutput LOG_SYSTEM Logger_new))
            in Run daemonize (if has_option ''debug'' os then setLogLevel LOG_LEVEL_DEBUG L else L)))"

section \<open>Detaching\<close>

record daemon_env =
  fork_ret :: int
  setsid_ret :: int
  chdir_ret :: int
  open_max :: int

datatype daemon_result = Daemon_exit bool | Daemon_goes_on "int list"

text \<open>
  \<open>Daemon_exit\<close> tells success from failure; otherwise the descriptors closed, in order.
\<close>

definition InitDaemon :: "daemon_env \<Rightarrow> bool \<Rightarrow> daemon_result" where
  "InitDaemon D daemonize =
     (if \<not> daemonize then Daemon_goes_on []
      else if fork_ret D < 0 then Daemon_exit False
      else if 0 < fork_ret D then Daemon_exit True
      else if setsid_ret D < 0 then Daemon_exit False
      else if chdir_ret D \<noteq> 0 then Daemon_exit False
      else (let maxFd = (if open_max D < 0 then 1024 else open_max D)
            in Daemon_goes_on (rev [0..maxFd])))"

section \<open>Properties\<close>

lemma take2_drop2: "take 2 arg = ''--'' \<Longrightarrow> arg = ''--'' @ drop 2 arg"
  by (metis append_take_drop_id)

definition option_args :: "string list" where
  "option_args = map ((@) ''--'') known_options"

lemma known_arg:
  "arg \<in> set option_args \<longleftrightarrow> \<not> (length arg < 3 \<or> take 2 arg \<noteq> ''--'') \<and> drop 2 arg \<in> set known_options"
proof
  assume "arg \<in> set option_args"
  then show "\<not> (length arg < 3 \<or> take 2 arg \<noteq> ''--'') \<and> drop 2 arg \<in> set known_options"
    by (auto simp: option_args_def known_options_def)
next
  assume a: "\<not> (length arg < 3 \<or> take 2 arg \<noteq> ''--'') \<and> drop 2 arg \<in> set known_options"
  then have "arg = ''--'' @ drop 2 arg" using take2_drop2 by blast
  with a show "arg \<in> set option_args" unfolding option_args_def by (metis image_eqI list.set_map)
qed

lemma options_loop_valid:
  assumes "set args \<subseteq> set option_args"
  shows "options_valid (options_loop args opts)
    \<and> set (options_given (options_loop args opts)) = set opts \<union> drop 2 ` set args"
  using assms by (induction args opts rule: options_loop.induct) (auto simp: known_arg Let_def)

lemma options_loop_invalid:
  assumes "\<not> set args \<subseteq> set option_args"
  shows "\<not> options_valid (options_loop args opts)"
  using assms by (induction args opts rule: options_loop.induct) (auto simp: known_arg Let_def)

text \<open>
  C38. The program runs exactly if every argument is one of the three options and help is
  not among them; an argument that is none of them ends it with status 1, also together
  with the help option, and otherwise help ends it with status 0. When it runs, it is a
  daemon that logs to the system unless the option against it was given, which also sends
  the log to the console, and it logs debug messages exactly if asked to.
\<close>

theorem launch_outcomes:
  "launch_of (prog # args) =
     (if \<not> set args \<subseteq> {''--no-daemon'', ''--debug'', ''--help''} then Exit_status 1
      else if ''--help'' \<in> set args then Exit_status 0
      else Run (''--no-daemon'' \<notin> set args)
        (setLogLevel (if ''--debug'' \<in> set args then LOG_LEVEL_DEBUG else LOG_LEVEL_INFO)
          (setLogOutput (if ''--no-daemon'' \<in> set args then LOG_CONSOLE else LOG_SYSTEM) Logger_new)))"
proof -
  have known: "set option_args = {''--no-daemon'', ''--debug'', ''--help''}"
    by (simp add: option_args_def known_options_def)
  have lv: "setLogOutput out Logger_new = setLogLevel LOG_LEVEL_INFO (setLogOutput out Logger_new)" for out
    by (simp add: setLogOutput_def setLogLevel_def Logger_new_def)
  have lv2: "setLogLevel a (setLogLevel b L) = setLogLevel a L" for a b L
    by (simp add: setLogLevel_def)
  show ?thesis
  proof (cases "set args \<subseteq> set option_args")
    case False
    with options_loop_invalid [OF False, of "[]"] known show ?thesis
      by (simp add: launch_of_def Options_new_def)
  next
    case True
    note v = options_loop_valid [OF True, of "[]"]
    have has: "has_option nm (options_loop args []) \<longleftrightarrow> ''--'' @ nm \<in> set args"
      if "''--'' @ nm \<in> set option_args" for nm
    proof -
      have "nm \<in> drop 2 ` set args \<longleftrightarrow> ''--'' @ nm \<in> set args"
        using True by (force simp: known_arg dest: take2_drop2)
      with v show ?thesis by (simp add: has_option_def)
    qed
    have "has_option ''help'' (options_loop args []) \<longleftrightarrow> ''--help'' \<in> set args"
      "has_option ''no-daemon'' (options_loop args []) \<longleftrightarrow> ''--no-daemon'' \<in> set args"
      "has_option ''debug'' (options_loop args []) \<longleftrightarrow> ''--debug'' \<in> set args"
      using has [of "''help''"] has [of "''no-daemon''"] has [of "''debug''"] by (simp_all add: known)
    with True v known show ?thesis
      by (simp add: launch_of_def Options_new_def lv [symmetric])
  qed
qed

end
