(* ===== verification/Wire_Protocol.thy ===== *)
theory Wire_Protocol
  imports Communo_Prelude
begin

text \<open>
  \<open>src/common/OpCodes.h\<close> and \<open>src/common/SharedDefinitions.h\<close>: the opcodes and the error
  codes both programs share, and the two bytes every packet starts with.
\<close>

datatype eOpcodes =
    OPCODE_START
  | CMSG_ECHO_REQUEST | CMSG_ADDITION_REQUEST | CMSG_BROADCAST_MESSAGE
  | CMSG_GET_CLIENT_LIST | CMSG_SEND_MSG_TO_CLIENT | CMSG_UPTIME | CMSG_PING
  | CMSG_INCREMENT_COUNTER | CMSG_GET_COUNTER | CMSG_GET_CHAT_ROOMS | CMSG_GET_ROOM_INFO
  | CMSG_JOIN_ROOM | CMSG_SAY
  | SMSG_MOTD | SMSG_MESSAGE | SMSG_ECHO_REQUEST | SMSG_ADDITION_REQUEST | SMSG_BROADCAST
  | SMSG_CLIENT_LIST | SMSG_PRIVATE_MSG_ERR | SMSG_PRIVATE_MESSAGE | SMSG_UPTIME | SMSG_PONG
  | SMSG_COUNTER | SMSG_JOIN_CHAT_ROOM_OK | SMSG_JOIN_CHAT_ROOM_ERR | SMSG_SAY_OK
  | SMSG_SAY_ERR | SMSG_SAY
  | OPCODE_MAX

primrec opcode :: "eOpcodes \<Rightarrow> u16" where
  "opcode OPCODE_START = 0x0000"
| "opcode CMSG_ECHO_REQUEST = 0x0001"
| "opcode CMSG_ADDITION_REQUEST = 0x0002"
| "opcode CMSG_BROADCAST_MESSAGE = 0x0003"
| "opcode CMSG_GET_CLIENT_LIST = 0x0004"
| "opcode CMSG_SEND_MSG_TO_CLIENT = 0x0005"
| "opcode CMSG_UPTIME = 0x0006"
| "opcode CMSG_PING = 0x0007"
| "opcode CMSG_INCREMENT_COUNTER = 0x0008"
| "opcode CMSG_GET_COUNTER = 0x0009"
| "opcode CMSG_GET_CHAT_ROOMS = 0x000A"
| "opcode CMSG_GET_ROOM_INFO = 0x000B"
| "opcode CMSG_JOIN_ROOM = 0x000C"
| "opcode CMSG_SAY = 0x000D"
| "opcode SMSG_MOTD = 0x0FFF"
| "opcode SMSG_MESSAGE = 0x1000"
| "opcode SMSG_ECHO_REQUEST = 0x1001"
| "opcode SMSG_ADDITION_REQUEST = 0x1002"
| "opcode SMSG_BROADCAST = 0x1003"
| "opcode SMSG_CLIENT_LIST = 0x1004"
| "opcode SMSG_PRIVATE_MSG_ERR = 0x1005"
| "opcode SMSG_PRIVATE_MESSAGE = 0x1006"
| "opcode SMSG_UPTIME = 0x1007"
| "opcode SMSG_PONG = 0x1008"
| "opcode SMSG_COUNTER = 0x1009"
| "opcode SMSG_JOIN_CHAT_ROOM_OK = 0x100A"
| "opcode SMSG_JOIN_CHAT_ROOM_ERR = 0x100B"
| "opcode SMSG_SAY_OK = 0x100C"
| "opcode SMSG_SAY_ERR = 0x100D"
| "opcode SMSG_SAY = 0x100E"
| "opcode OPCODE_MAX = 0x8000"

datatype eChatErr =
    ERR_OK | ERR_INVALID_ROOM | ERR_INVALID_ROOM_PASSWORD | ERR_INVALID_PACKET
  | ERR_NO_ROOM_JOINED | ERR_NO_CLIENT_FOUND | ERR_MSG_TO_SELF | ERR_TOO_MUCH_CLIENTS
  | ERR_EMPTY_MESSAGE

primrec err_code :: "eChatErr \<Rightarrow> u8" where
  "err_code ERR_OK = 0"
| "err_code ERR_INVALID_ROOM = 1"
| "err_code ERR_INVALID_ROOM_PASSWORD = 2"
| "err_code ERR_INVALID_PACKET = 3"
| "err_code ERR_NO_ROOM_JOINED = 4"
| "err_code ERR_NO_CLIENT_FOUND = 5"
| "err_code ERR_MSG_TO_SELF = 6"
| "err_code ERR_TOO_MUCH_CLIENTS = 7"
| "err_code ERR_EMPTY_MESSAGE = 8"

definition SHA256_DIGEST_LENGTH :: nat where
  "SHA256_DIGEST_LENGTH = 32"

text \<open>
  \<open>unsigned short opcode = htons(X); packet.append(&opcode, sizeof(opcode))\<close>, and the
  receiver's \<open>memcpy\<close> followed by \<open>ntohs\<close>.
\<close>

definition packet_header :: "endian \<Rightarrow> eOpcodes \<Rightarrow> bytes" where
  "packet_header e op = mem_bytes e (to_net e (opcode op))"

definition header_opcode :: "endian \<Rightarrow> bytes \<Rightarrow> u16" where
  "header_opcode e bs = to_net e (of_mem e (take 2 bs))"

text \<open>The header does not depend on the host that writes it.\<close>

lemma packet_header_eq: "packet_header e op = be_bytes (opcode op)"
  by (simp add: packet_header_def)

lemma length_packet_header [simp]: "length (packet_header e op) = 2"
  by (simp add: packet_header_eq)

lemma packet_header_not_Nil [simp]: "packet_header e op \<noteq> []"
  using length_packet_header [of e op] by (auto simp del: length_packet_header)

lemma take2_header [simp]: "take 2 (packet_header e op @ rest) = packet_header e op"
  and drop2_header [simp]: "drop 2 (packet_header e op @ rest) = rest"
  by simp_all

lemma header_opcode_packet [simp]: "header_opcode e (packet_header e' op @ rest) = opcode op"
  unfolding header_opcode_def packet_header_eq by (rule net16.dec_front)

lemma header_opcode_packet0 [simp]: "header_opcode e (packet_header e' op) = opcode op"
  using header_opcode_packet [of e e' op "[]"] by simp

lemma opcode_inject [simp]: "opcode a = opcode b \<longleftrightarrow> a = b"
  by (cases a; cases b) simp_all

lemma err_code_inject [simp]: "err_code a = err_code b \<longleftrightarrow> a = b"
  by (cases a; cases b) simp_all

end
