(* ===== verification/Chat_Rooms.thy ===== *)
theory Chat_Rooms
  imports Wire_Protocol
begin

text \<open>
  \<open>src/server/Chat.{h,cpp}\<close> and \<open>src/server/Database.{h,cpp}\<close>: the table of chat rooms,
  its queries and its loading. The table is the map from room number to room; the order in
  which \<open>std::unordered_map\<close> is walked is unspecified and is a parameter where it shows.
  Access by \<open>operator[]\<close> inserts a default room under a missing key, so the two queries
  that use it return the table they leave behind.
\<close>

section \<open>Data\<close>

record ChatRoom =
  name :: bytes
  passwordHash :: bytes

type_synonym chat = "u8 \<rightharpoonup> ChatRoom"

definition ChatRoom_default :: ChatRoom where
  "ChatRoom_default = \<lparr>name = [], passwordHash = []\<rparr>"

text \<open>
  What the statement hands over, row by row: the integer column and the two text columns,
  \<open>None\<close> for a null pointer. \<open>Prepare_failed\<close> is a statement that was never compiled;
  stepping it returns an error code, so the loop body is not entered.
\<close>

type_synonym db_row = "int \<times> bytes option \<times> bytes option"

datatype query = Prepare_failed | Rows "db_row list"

section \<open>Operations\<close>

text \<open>A string assigned from a character pointer ends at the first NUL byte.\<close>

definition string_of_column :: "bytes option \<Rightarrow> bytes" where
  "string_of_column p = (case p of None \<Rightarrow> [] | Some bs \<Rightarrow> c_str bs)"

definition emplace :: "u8 \<Rightarrow> ChatRoom \<Rightarrow> chat \<Rightarrow> chat" where
  "emplace k r m = (case m k of None \<Rightarrow> m(k \<mapsto> r) | Some _ \<Rightarrow> m)"

fun load_rows :: "db_row list \<Rightarrow> chat \<Rightarrow> chat" where
  "load_rows [] m = m"
| "load_rows ((i, nm, ph) # rows) m =
     (let roomID = word_of_int i;
          room = \<lparr>name = string_of_column nm, passwordHash = string_of_column ph\<rparr>
      in load_rows rows (emplace roomID room m))"

definition loadRooms :: "query \<Rightarrow> chat \<Rightarrow> chat" where
  "loadRooms q m = (case q of Prepare_failed \<Rightarrow> m | Rows rows \<Rightarrow> load_rows rows m)"

definition loadChatRooms :: "query \<Rightarrow> chat \<Rightarrow> chat" where
  "loadChatRooms q m = loadRooms q m"

definition getRoomName :: "u8 \<Rightarrow> chat \<Rightarrow> fault + bytes" where
  "getRoomName roomID m =
     (case m roomID of None \<Rightarrow> Inl (Out_of_range ''unordered_map::at'') | Some r \<Rightarrow> Inr (name r))"

definition checkRoomID :: "u8 \<Rightarrow> chat \<Rightarrow> bool" where
  "checkRoomID roomID m = (m roomID \<noteq> None)"

definition subscript :: "u8 \<Rightarrow> chat \<Rightarrow> ChatRoom \<times> chat" where
  "subscript roomID m =
     (case m roomID of
        None \<Rightarrow> (ChatRoom_default, m(roomID \<mapsto> ChatRoom_default))
      | Some r \<Rightarrow> (r, m))"

definition isRoomProtected :: "u8 \<Rightarrow> chat \<Rightarrow> bool \<times> chat" where
  "isRoomProtected roomID m =
     (let (r, m') = subscript roomID m in (passwordHash r \<noteq> [], m'))"

text \<open>The digest is copied out of the string's storage, which ends with one NUL byte.\<close>

definition checkPasswordHash :: "u8 \<Rightarrow> bytes \<Rightarrow> chat \<Rightarrow> fault + bool \<times> chat" where
  "checkPasswordHash roomID hash m =
     (let (r, m') = subscript roomID m
      in case read_at (passwordHash r @ [0]) 0 SHA256_DIGEST_LENGTH of
           Inl f \<Rightarrow> Inl f
         | Inr roomHash \<Rightarrow> Inr (roomHash = take SHA256_DIGEST_LENGTH hash, m'))"

definition room_line :: "u8 \<Rightarrow> ChatRoom \<Rightarrow> bytes" where
  "room_line roomID r =
     ascii (''['' @ show_nat (unat roomID) @ ''] '') @ name r @
     (if passwordHash r = [] then ascii '' (open)'' else ascii '' (protected)'')"

text \<open>The loop over the table, in the order \<open>order\<close> of its iterators.\<close>

fun rooms_loop :: "u8 list \<Rightarrow> chat \<Rightarrow> bytes \<Rightarrow> bytes" where
  "rooms_loop [] m rooms = rooms"
| "rooms_loop (k # ks) m rooms =
     (let r = (case m k of None \<Rightarrow> ChatRoom_default | Some r \<Rightarrow> r);
          rooms = rooms @ room_line k r
      in rooms_loop ks m (if ks \<noteq> [] then rooms @ ascii ''\<newline>'' else rooms))"

definition getChatRoomsStr :: "u8 list \<Rightarrow> chat \<Rightarrow> bytes" where
  "getChatRoomsStr order m = rooms_loop order m []"

section \<open>What the server relies on\<close>

text \<open>
  The contract between the table and the handlers that query it: a query about one key
  leaves every other key alone, keeps the rooms that are there, and may at most create the
  key it asks about.
\<close>

locale room_store =
  fixes known :: "'k \<Rightarrow> 's \<Rightarrow> bool"
    and look :: "'k \<Rightarrow> 's \<Rightarrow> 'r option"
    and touch :: "'k \<Rightarrow> 's \<Rightarrow> 's"
  assumes known_look: "known k s \<longleftrightarrow> look k s \<noteq> None"
    and touch_same: "known k s \<Longrightarrow> look k (touch k' s) = look k s"
    and touch_other: "k \<noteq> k' \<Longrightarrow> look k (touch k' s) = look k s"
begin

lemma known_touch: "known k s \<Longrightarrow> known k (touch k' s)"
  by (simp add: known_look touch_same)

lemma known_fold: "known k s \<Longrightarrow> known k (fold touch ks s)"
  by (induction ks arbitrary: s) (simp_all add: known_touch)

lemma look_fold: "known k s \<Longrightarrow> look k (fold touch ks s) = look k s"
  by (induction ks arbitrary: s) (simp_all add: known_touch touch_same)

lemma unknown_fold: "\<not> known k s \<Longrightarrow> k \<notin> set ks \<Longrightarrow> \<not> known k (fold touch ks s)"
  by (induction ks arbitrary: s) (simp_all add: known_look touch_other)

end

lemma subscript_known: "m k = Some r \<Longrightarrow> subscript k m = (r, m)"
  and subscript_unknown: "m k = None \<Longrightarrow> subscript k m = (ChatRoom_default, m(k \<mapsto> ChatRoom_default))"
  by (simp_all add: subscript_def)

interpretation chat_store: room_store checkRoomID "\<lambda>k m. m k" "\<lambda>k m. snd (isRoomProtected k m)"
  by unfold_locales
    (auto simp: checkRoomID_def isRoomProtected_def subscript_def Let_def split: option.splits)

lemma isRoomProtected_known:
  "m k = Some r \<Longrightarrow> isRoomProtected k m = (passwordHash r \<noteq> [], m)"
  by (simp add: isRoomProtected_def subscript_known)

lemma isRoomProtected_unknown:
  "m k = None \<Longrightarrow> isRoomProtected k m = (False, m(k \<mapsto> ChatRoom_default))"
  by (simp add: isRoomProtected_def subscript_unknown ChatRoom_default_def)

lemma checkPasswordHash_state:
  "checkPasswordHash k h m = Inr (b, m') \<Longrightarrow> m' = snd (subscript k m)"
  by (auto simp: checkPasswordHash_def Let_def split: prod.splits sum.splits)

lemma getRoomName_known: "checkRoomID k m \<Longrightarrow> \<exists>nm. getRoomName k m = Inr nm"
  by (auto simp: checkRoomID_def getRoomName_def)

section \<open>Properties\<close>

fun row_entry :: "db_row \<Rightarrow> u8 \<times> ChatRoom" where
  "row_entry (i, nm, ph) =
     (word_of_int i, \<lparr>name = string_of_column nm, passwordHash = string_of_column ph\<rparr>)"

lemma load_rows_map_of:
  "load_rows rows m k = (case m k of Some r \<Rightarrow> Some r | None \<Rightarrow> map_of (map row_entry rows) k)"
proof (induction rows m rule: load_rows.induct)
  case (1 m)
  then show ?case by (simp split: option.split)
next
  case (2 i nm ph rows m)
  then show ?case by (auto simp: emplace_def Let_def split: option.splits)
qed

text \<open>
  C23. Loading the rooms at start-up builds the finite map of the query's rows: a room
  number is known exactly if some row carries it modulo 256, its room is the one of the
  first such row (a later row with the same number never replaces it), and a query that
  could not be prepared leaves the table empty.
\<close>

theorem loadChatRooms_first_row:
  "loadChatRooms (Rows rows) Map.empty = map_of (map row_entry rows)
   \<and> (checkRoomID k (loadChatRooms (Rows rows) Map.empty)
        \<longleftrightarrow> (\<exists>(i, nm, ph) \<in> set rows. word_of_int i = k))
   \<and> loadChatRooms Prepare_failed Map.empty = Map.empty"
proof -
  have eq: "loadChatRooms (Rows rows) Map.empty = map_of (map row_entry rows)"
    by (rule ext) (simp add: loadChatRooms_def loadRooms_def load_rows_map_of)
  moreover have "map_of (map row_entry rows) k \<noteq> None
      \<longleftrightarrow> (\<exists>(i, nm, ph) \<in> set rows. word_of_int i = k)"
    by (force simp: map_of_eq_None_iff image_iff)
  ultimately show ?thesis
    by (simp add: checkRoomID_def loadChatRooms_def loadRooms_def)
qed

lemma c_str_prefix:
  assumes "length blob = Suc n" and "0 \<notin> set (take n blob)"
  shows "c_str blob @ [0] = blob \<or> c_str blob = blob"
proof -
  obtain a z where b: "blob = a @ [z]" and a: "length a = n"
    using assms(1) by (cases blob rule: rev_cases) auto
  with assms(2) have "0 \<notin> set a" by simp
  then show ?thesis by (cases "z = 0") (simp_all add: b c_str_append_id, simp_all add: c_str_def)
qed

lemma c_str_short: "0 \<in> set (take n bs) \<Longrightarrow> length (c_str bs) < n"
proof (induction bs arbitrary: n)
  case (Cons b bs)
  then show ?case by (cases n) (auto simp: c_str_def)
qed simp

text \<open>
  C24. The digest of a protected room is a 32-byte blob that is loaded as C text, so its
  zero bytes matter. Without a zero byte among the first 31 the check accepts exactly the
  stored digest and leaves the table alone. With one, the copy of 32 bytes reads past the
  end of the stored string; and if it is the first byte, the room does not count as
  protected at all.
\<close>

theorem checkPasswordHash_blob:
  assumes room: "m k = Some \<lparr>name = nm, passwordHash = string_of_column (Some blob)\<rparr>"
    and len: "length blob = 32"
  shows "isRoomProtected k m = (hd blob \<noteq> 0, m)
    \<and> checkPasswordHash k hash m =
        (if 0 \<in> set (take 31 blob) then Inl Out_of_bounds else Inr (blob = take 32 hash, m))"
proof
  from len obtain b bs where blob: "blob = b # bs" by (cases blob) auto
  then show "isRoomProtected k m = (hd blob \<noteq> 0, m)"
    by (simp add: isRoomProtected_known [of m, OF room] string_of_column_def c_str_def)
  show "checkPasswordHash k hash m =
      (if 0 \<in> set (take 31 blob) then Inl Out_of_bounds else Inr (blob = take 32 hash, m))"
  proof (cases "0 \<in> set (take 31 blob)")
    case True
    then have "length (c_str blob) < 31" by (rule c_str_short)
    with True show ?thesis
      by (simp add: checkPasswordHash_def subscript_known [of m, OF room] string_of_column_def
          read_at_fault SHA256_DIGEST_LENGTH_def)
  next
    case False
    from len have "length blob = Suc 31" by simp
    from c_str_prefix [OF this False] have "read_at (c_str blob @ [0]) 0 32 = Inr blob"
    proof
      assume "c_str blob @ [0] = blob"
      with len show ?thesis by (simp only: read_at_def) simp
    next
      assume "c_str blob = blob"
      with len show ?thesis by (simp add: read_at_def)
    qed
    with False show ?thesis
      by (simp add: checkPasswordHash_def subscript_known [of m, OF room] string_of_column_def
          SHA256_DIGEST_LENGTH_def)
  qed
qed

theorem checkPasswordHash_blob_witness:
  "(let m = [3 \<mapsto> \<lparr>name = [80], passwordHash = string_of_column (Some (replicate 32 7))\<rparr>] :: chat
    in isRoomProtected 3 m = (True, m)
       \<and> checkPasswordHash 3 (replicate 32 7) m = Inr (True, m))"
  using checkPasswordHash_blob
    [of "[3 \<mapsto> \<lparr>name = [80], passwordHash = string_of_column (Some (replicate 32 7))\<rparr>]" 3 "[80]"
      "replicate 32 7" "replicate 32 7"]
  by simp

lemma rooms_loop_acc: "rooms_loop ks m acc = acc @ rooms_loop ks m []"
proof (induction ks arbitrary: acc)
  case (Cons k ks)
  show ?case
    unfolding rooms_loop.simps Let_def
    by (subst (1 2) Cons.IH) simp
qed simp

end
