(* ===== verification/Floating_Point.thy ===== *)
theory Floating_Point
  imports Communo_Prelude
begin

text \<open>
  The part of C++ floating point that the program uses: \<open>float\<close> and \<open>double\<close> as IEEE
  754 bit patterns, conversion from integers, widening, addition (round to nearest, ties to
  even), the \<open>%f\<close> formatting behind \<open>std::to_string\<close>, and \<open>strtof\<close> / \<open>strtod\<close>.
  A finite magnitude is a natural number of the smallest subnormal, \<open>2\<^sup>-\<^sup>1\<^sup>0\<^sup>7\<^sup>4\<close> for
  \<open>double\<close> and \<open>2\<^sup>-\<^sup>1\<^sup>4\<^sup>9\<close> for \<open>float\<close>, so every step before the one rounding is
  exact. What IEEE 754 leaves to the machine, the bits of a NaN, is a parameter.
\<close>

section \<open>Bit length\<close>

fun nbits :: "nat \<Rightarrow> nat" where
  "nbits n = (if n = 0 then 0 else Suc (nbits (n div 2)))"

declare nbits.simps [simp del]

lemma nbits_0 [simp]: "nbits 0 = 0"
  by (simp add: nbits.simps)

lemma nbits_upper: "n < 2 ^ nbits n"
proof (induction n rule: nbits.induct)
  case (1 n)
  show ?case
  proof (cases "n = 0")
    case False
    with "1.IH" have "n div 2 < 2 ^ nbits (n div 2)" by simp
    then have "n < 2 * 2 ^ nbits (n div 2)" by linarith
    with False show ?thesis by (simp add: nbits.simps [of n])
  qed simp
qed

lemma nbits_lower: "n \<noteq> 0 \<Longrightarrow> 2 ^ (nbits n - 1) \<le> n"
proof (induction n rule: nbits.induct)
  case (1 n)
  show ?case
  proof (cases "n div 2 = 0")
    case True
    with "1.prems" show ?thesis by (simp add: nbits.simps [of n])
  next
    case False
    with "1.IH" "1.prems" have ih: "2 ^ (nbits (n div 2) - 1) \<le> n div 2" by simp
    from False have "nbits (n div 2) \<noteq> 0" by (simp add: nbits.simps [of "n div 2"])
    then have "2 ^ nbits (n div 2) = 2 * (2::nat) ^ (nbits (n div 2) - 1)"
      by (cases "nbits (n div 2)") simp_all
    with ih have "2 ^ nbits (n div 2) \<le> n" by linarith
    with "1.prems" show ?thesis by (simp add: nbits.simps [of n])
  qed
qed

lemma nbits_le: "n < 2 ^ k \<Longrightarrow> nbits n \<le> k"
proof (rule ccontr)
  assume n: "n < 2 ^ k" and "\<not> nbits n \<le> k"
  then have k: "k \<le> nbits n - 1" and "n \<noteq> 0" by (auto intro: ccontr)
  from \<open>n \<noteq> 0\<close> have "2 ^ (nbits n - 1) \<le> n" by (rule nbits_lower)
  moreover have "(2::nat) ^ k \<le> 2 ^ (nbits n - 1)" using k by (rule power_increasing) simp
  ultimately show False using n by linarith
qed

section \<open>Rounding a non-negative ratio to a binary format\<close>

text \<open>
  \<open>round_ratio p n d\<close> are the exponent and fraction bits, read as one number, of the
  value with \<open>p\<close> significant bits that is nearest to \<open>n / d\<close> units, ties to even. The
  encoding is contiguous: a carry out of the significand moves to the next exponent.
  \<open>mag_of_bits\<close> reads such bits back as a number of units.
\<close>

definition round_shift :: "nat \<Rightarrow> nat \<Rightarrow> nat \<Rightarrow> nat" where
  "round_shift p n d = nbits (n div d) - p"

definition round_sig :: "nat \<Rightarrow> nat \<Rightarrow> nat" where
  "round_sig n D =
     (let q = n div D; r = n mod D
      in if D < 2 * r \<or> (2 * r = D \<and> odd q) then Suc q else q)"

definition round_ratio :: "nat \<Rightarrow> nat \<Rightarrow> nat \<Rightarrow> nat" where
  "round_ratio p n d =
     (let k = round_shift p n d in k * 2 ^ (p - 1) + round_sig n (d * 2 ^ k))"

definition mag_of_bits :: "nat \<Rightarrow> nat \<Rightarrow> nat" where
  "mag_of_bits p b =
     (let E = b div 2 ^ (p - 1); F = b mod 2 ^ (p - 1)
      in if E = 0 then F else (2 ^ (p - 1) + F) * 2 ^ (E - 1))"

lemma mag_of_bits_shift:
  assumes p: "0 < p" and q: "q \<le> 2 ^ p" and norm: "k \<noteq> 0 \<Longrightarrow> 2 ^ (p - 1) \<le> q"
  shows "mag_of_bits p (k * 2 ^ (p - 1) + q) = q * 2 ^ k"
proof -
  define H :: nat where "H = 2 ^ (p - 1)"
  have H0: "0 < H" and pH: "2 ^ p = 2 * H"
    using p power_eq_if [of "2::nat" p] by (simp_all add: H_def)
  have mag: "mag_of_bits p b = (if b div H = 0 then b mod H else (H + b mod H) * 2 ^ (b div H - 1))" for b
    by (simp only: mag_of_bits_def H_def Let_def)
  consider "q < H" | "H \<le> q" "q < 2 * H" | "q = 2 * H"
    using q pH by linarith
  then have "mag_of_bits p (k * H + q) = q * 2 ^ k"
  proof cases
    case 1
    then have "k = 0" using norm by (auto simp: H_def)
    with 1 show ?thesis by (simp add: mag)
  next
    case 2
    then obtain F where F: "q = H + F" "F < H" by (auto simp: le_iff_add)
    have "k * H + q = F + Suc k * H" by (simp add: F)
    then have "(k * H + q) div H = Suc k" and "(k * H + q) mod H = F"
      using F(2) H0 by (simp_all only: div_mult_self1 mod_mult_self1) simp_all
    then show ?thesis
      by (simp add: mag F)
  next
    case 3
    then have "k * H + q = Suc (Suc k) * H" by simp
    then have "(k * H + q) div H = Suc (Suc k)" and "(k * H + q) mod H = 0"
      using H0 by (simp_all only: nonzero_mult_div_cancel_right mod_mult_self2_is_0)
    then show ?thesis
      by (simp add: mag 3)
  qed
  then show ?thesis by (simp only: H_def)
qed

lemma div_round_shift:
  fixes n :: nat
  assumes p: "0 < p" and d: "0 < d"
  defines "k \<equiv> round_shift p n d"
  shows "n div (d * 2 ^ k) < 2 ^ p"
    and "k \<noteq> 0 \<Longrightarrow> 2 ^ (p - 1) \<le> n div (d * 2 ^ k)"
proof -
  let ?m = "n div d"
  have eq: "n div (d * 2 ^ k) = ?m div 2 ^ k" by (simp add: div_mult2_eq)
  have "?m < 2 ^ (p + k)"
  proof -
    have "nbits ?m \<le> p + k" by (simp add: k_def round_shift_def)
    then have "(2::nat) ^ nbits ?m \<le> 2 ^ (p + k)" by (rule power_increasing) simp
    with nbits_upper [of ?m] show ?thesis by (rule less_le_trans)
  qed
  then have "?m div 2 ^ k < 2 ^ p" by (simp add: power_add less_mult_imp_div_less)
  then show "n div (d * 2 ^ k) < 2 ^ p" by (simp add: eq)
  assume "k \<noteq> 0"
  then have nb: "nbits ?m = p + k" by (simp add: k_def round_shift_def)
  with p have "nbits ?m \<noteq> 0" by simp
  then have "?m \<noteq> 0" by (metis nbits_0)
  then have "2 ^ (p + k - 1) \<le> ?m" using nbits_lower [of ?m] nb by simp
  moreover have "(2::nat) ^ (p + k - 1) = 2 ^ (p - 1) * 2 ^ k"
    using p by (simp add: power_add [symmetric])
  ultimately have "2 ^ (p - 1) * 2 ^ k div 2 ^ k \<le> ?m div 2 ^ k"
    by (metis div_le_mono)
  then show "2 ^ (p - 1) \<le> n div (d * 2 ^ k)" by (simp add: eq)
qed

lemma round_sig_bounds: "n div D \<le> round_sig n D \<and> round_sig n D \<le> Suc (n div D)"
  by (simp add: round_sig_def Let_def)

lemma mag_of_round_ratio:
  assumes "0 < p" and "0 < d"
  shows "mag_of_bits p (round_ratio p n d) =
    round_sig n (d * 2 ^ round_shift p n d) * 2 ^ round_shift p n d"
proof -
  let ?k = "round_shift p n d"
  have "round_sig n (d * 2 ^ ?k) \<le> 2 ^ p"
    using round_sig_bounds [of n "d * 2 ^ ?k"] div_round_shift(1) [OF assms, of n] by linarith
  moreover have "?k \<noteq> 0 \<Longrightarrow> 2 ^ (p - 1) \<le> round_sig n (d * 2 ^ ?k)"
    using round_sig_bounds [of n "d * 2 ^ ?k"] div_round_shift(2) [OF assms, of n] by linarith
  ultimately show ?thesis
    unfolding round_ratio_def Let_def by (rule mag_of_bits_shift [OF assms(1)])
qed

text \<open>Rounding is to nearest: the error is at most half a unit in the last place.\<close>

lemma round_sig_half:
  assumes "0 < D"
  shows "2 * \<bar>int (round_sig n D * D) - int n\<bar> \<le> int D"
proof -
  define q r where "q = n div D" and "r = n mod D"
  have n: "int n = int q * int D + int r" and r: "r < D"
    using assms by (simp_all add: q_def r_def flip: of_nat_mult of_nat_add)
  show ?thesis
  proof (cases "D < 2 * r \<or> (2 * r = D \<and> odd q)")
    case True
    then have "round_sig n D = Suc q" by (simp add: round_sig_def q_def r_def)
    then have "int (round_sig n D * D) - int n = int D - int r"
      by (simp add: n algebra_simps)
    with True r show ?thesis by auto
  next
    case False
    then have "round_sig n D = q" by (auto simp: round_sig_def q_def r_def Let_def)
    then have "int (round_sig n D * D) - int n = - int r"
      by (simp add: n)
    with False show ?thesis by auto
  qed
qed

text \<open>A value with at most \<open>p\<close> significant bits is kept as it is.\<close>

lemma round_exact:
  assumes p: "0 < p" and q: "q < 2 ^ p"
  shows "mag_of_bits p (round_ratio p (q * 2 ^ j) 1) = q * 2 ^ j"
proof -
  let ?n = "q * 2 ^ j" and ?k = "round_shift p (q * 2 ^ j) 1"
  have "?n < 2 ^ (p + j)" using q by (simp add: power_add)
  then have "nbits ?n \<le> p + j" by (rule nbits_le)
  then have "?k \<le> j" by (simp add: round_shift_def)
  then have dvd: "2 ^ ?k dvd ?n" by (simp add: le_imp_power_dvd)
  then have "round_sig ?n (2 ^ ?k) = ?n div 2 ^ ?k"
    by (simp add: round_sig_def Let_def mod_eq_0_iff_dvd)
  then have "mag_of_bits p (round_ratio p ?n 1) = ?n div 2 ^ ?k * 2 ^ ?k"
    using mag_of_round_ratio [OF p, of 1 ?n] by simp
  then show ?thesis using dvd by simp
qed

lemma round_ratio_bound:
  assumes p: "0 < p" and n: "n < 2 ^ L" and L: "p \<le> L"
  shows "round_ratio p n 1 \<le> (L - p) * 2 ^ (p - 1) + 2 ^ p"
proof -
  let ?k = "round_shift p n 1"
  from n have "nbits n \<le> L" by (rule nbits_le)
  then have "?k \<le> L - p" by (simp add: round_shift_def)
  then have "?k * 2 ^ (p - 1) \<le> (L - p) * 2 ^ (p - 1)" by (rule mult_le_mono1)
  moreover have "round_sig n (2 ^ ?k) \<le> 2 ^ p"
    using round_sig_bounds [of n "2 ^ ?k"] div_round_shift(1) [OF p, of 1 n] by simp
  ultimately show ?thesis
    unfolding round_ratio_def Let_def mult_1 by (rule add_mono)
qed

section \<open>The two formats\<close>

datatype fpval = FNaN | FInf bool | FFin bool nat

text \<open>
  What the standard leaves open: the bits of the NaN that an addition or a widening
  conversion gives, and of the NaN that \<open>strtod\<close> and \<open>strtof\<close> make of the characters
  of \<open>nan(chars)\<close>.
\<close>

record fp_env =
  add_nan :: "u64 \<Rightarrow> u64 \<Rightarrow> u64"
  widen_nan :: "u32 \<Rightarrow> u64"
  strtod_nan :: "bool \<Rightarrow> string \<Rightarrow> u64"
  strtof_nan :: "bool \<Rightarrow> string \<Rightarrow> u32"

text \<open>One instance, the rules of SSE arithmetic: the first NaN operand, made quiet.\<close>

definition sse_fp_env :: fp_env where
  "sse_fp_env =
     \<lparr>add_nan = (\<lambda>x y. if 0x7FF0000000000000 < unat x mod 2 ^ 63 then or x 0x0008000000000000
                       else if 0x7FF0000000000000 < unat y mod 2 ^ 63 then or y 0x0008000000000000
                       else 0xFFF8000000000000),
      widen_nan = (\<lambda>w. or (push_bit 29 (ucast (and w 0x007FFFFF))) 
                      (if 2 ^ 31 \<le> unat w then 0xFFF8000000000000 else 0x7FF8000000000000)),
      strtod_nan = (\<lambda>neg cs. if neg then 0xFFF8000000000000 else 0x7FF8000000000000),
      strtof_nan = (\<lambda>neg cs. if neg then 0xFFC00000 else 0x7FC00000)\<rparr>"

definition double_inf_bits :: nat where
  "double_inf_bits = 2047 * 2 ^ 52"

definition float_inf_bits :: nat where
  "float_inf_bits = 255 * 2 ^ 23"

definition double_val :: "u64 \<Rightarrow> fpval" where
  "double_val w =
     (let s = 2 ^ 63 \<le> unat w; m = unat w mod 2 ^ 63
      in if double_inf_bits < m then FNaN
         else if m = double_inf_bits then FInf s
         else FFin s (mag_of_bits 53 m))"

definition float_val :: "u32 \<Rightarrow> fpval" where
  "float_val w =
     (let s = 2 ^ 31 \<le> unat w; m = unat w mod 2 ^ 31
      in if float_inf_bits < m then FNaN
         else if m = float_inf_bits then FInf s
         else FFin s (mag_of_bits 24 m))"

definition double_enc :: "bool \<Rightarrow> nat \<Rightarrow> u64" where
  "double_enc s b = word_of_nat ((if s then 2 ^ 63 else 0) + min b double_inf_bits)"

definition float_enc :: "bool \<Rightarrow> nat \<Rightarrow> u32" where
  "float_enc s b = word_of_nat ((if s then 2 ^ 31 else 0) + min b float_inf_bits)"

text \<open>\<open>n / d\<close> units of \<open>2\<^sup>-\<^sup>1\<^sup>0\<^sup>7\<^sup>4\<close> (of \<open>2\<^sup>-\<^sup>1\<^sup>4\<^sup>9\<close>) as a \<open>double\<close> (\<open>float\<close>).\<close>

definition double_round :: "bool \<Rightarrow> nat \<Rightarrow> nat \<Rightarrow> u64" where
  "double_round s n d = double_enc s (round_ratio 53 n d)"

definition float_round :: "bool \<Rightarrow> nat \<Rightarrow> nat \<Rightarrow> u32" where
  "float_round s n d = float_enc s (round_ratio 24 n d)"

definition double_of_int :: "int \<Rightarrow> u64" where
  "double_of_int i = double_round (i < 0) (nat \<bar>i\<bar> * 2 ^ 1074) 1"

definition double_of_float :: "fp_env \<Rightarrow> u32 \<Rightarrow> u64" where
  "double_of_float P w =
     (case float_val w of
        FNaN \<Rightarrow> widen_nan P w
      | FInf s \<Rightarrow> double_enc s double_inf_bits
      | FFin s m \<Rightarrow> double_round s (m * 2 ^ 925) 1)"

definition signed_mag :: "bool \<Rightarrow> nat \<Rightarrow> int" where
  "signed_mag s m = (if s then - int m else int m)"

definition double_add :: "fp_env \<Rightarrow> u64 \<Rightarrow> u64 \<Rightarrow> u64" where
  "double_add P x y =
     (case (double_val x, double_val y) of
        (FFin s m, FFin t n) \<Rightarrow>
          (let z = signed_mag s m + signed_mag t n
           in if z = 0 then double_enc (s \<and> t) 0 else double_round (z < 0) (nat \<bar>z\<bar>) 1)
      | (FInf s, FFin t n) \<Rightarrow> double_enc s double_inf_bits
      | (FFin s m, FInf t) \<Rightarrow> double_enc t double_inf_bits
      | (FInf s, FInf t) \<Rightarrow> (if s = t then double_enc s double_inf_bits else add_nan P x y)
      | _ \<Rightarrow> add_nan P x y)"

lemma double_val_enc:
  assumes "b < double_inf_bits"
  shows "double_val (double_enc s b) = FFin s (mag_of_bits 53 b)"
proof -
  have b: "b < 2 ^ 63" using assms by (simp add: double_inf_bits_def)
  let ?n = "(if s then 2 ^ 63 else 0) + b"
  have "?n < 2 ^ 64" using b by auto
  then have "unat (word_of_nat ?n :: u64) = ?n" by (simp add: unat_of_nat del: of_nat_add)
  then have "unat (double_enc s b) = ?n"
    using assms by (simp only: double_enc_def min.strict_order_iff [symmetric] min_absorb1 less_imp_le)
  with assms b show ?thesis
    by (cases s) (simp_all add: double_val_def Let_def)
qed

lemma double_val_round_exact:
  assumes q: "q < 2 ^ 53" and j: "j \<le> 1127"
  shows "double_val (double_round s (q * 2 ^ j) 1) = FFin s (q * 2 ^ j)"
proof -
  have "q * 2 ^ j < 2 ^ 53 * 2 ^ j" using q by simp
  also have "\<dots> = 2 ^ (53 + j)" by (rule power_add [symmetric])
  also have "\<dots> \<le> 2 ^ 1180" using j by (intro power_increasing) simp_all
  finally have "round_ratio 53 (q * 2 ^ j) 1 \<le> (1180 - 53) * 2 ^ (53 - 1) + 2 ^ 53"
    by (intro round_ratio_bound) simp_all
  then have "round_ratio 53 (q * 2 ^ j) 1 < double_inf_bits"
    by (simp add: double_inf_bits_def)
  then show ?thesis
    using round_exact [of 53 q j] q by (simp add: double_round_def double_val_enc)
qed

lemma double_val_of_int:
  assumes "\<bar>i\<bar> \<le> 2 ^ 53"
  shows "double_val (double_of_int i) = FFin (i < 0) (nat \<bar>i\<bar> * 2 ^ 1074)"
proof (cases "\<bar>i\<bar> = 2 ^ 53")
  case True
  have "nat \<bar>i\<bar> * 2 ^ 1074 = 1 * 2 ^ 1127"
    unfolding True by (simp flip: power_add)
  moreover have "double_val (double_round (i < 0) (1 * 2 ^ 1127) 1) = FFin (i < 0) (1 * 2 ^ 1127)"
    by (rule double_val_round_exact) simp_all
  ultimately show ?thesis by (simp only: double_of_int_def)
next
  case False
  with assms have "nat \<bar>i\<bar> < 2 ^ 53" by auto
  then show ?thesis
    unfolding double_of_int_def by (rule double_val_round_exact) simp
qed

lemma signed_mag_int: "signed_mag (i < 0) (nat \<bar>i\<bar> * 2 ^ j) = i * 2 ^ j"
  by (simp add: signed_mag_def)

lemma scale_zero_iff: "(c :: int) * 2 ^ j = 0 \<longleftrightarrow> c = 0" and scale_neg_iff: "c * 2 ^ j < 0 \<longleftrightarrow> c < 0"
  by (simp_all add: mult_less_0_iff)

lemma nat_abs_scale: "nat \<bar>i * 2 ^ j\<bar> = nat \<bar>i\<bar> * 2 ^ j"
  by (simp add: abs_mult nat_mult_distrib)

text \<open>Addition of integers that a \<open>double\<close> represents rounds once, at the end.\<close>

lemma double_add_fin:
  assumes x: "double_val x = FFin (a < 0) (nat \<bar>a\<bar> * 2 ^ j)"
    and y: "double_val y = FFin (b < 0) (nat \<bar>b\<bar> * 2 ^ j)"
  shows "double_add P x y = double_round (a + b < 0) (nat \<bar>a + b\<bar> * 2 ^ j) 1"
proof -
  have z: "a * 2 ^ j + b * 2 ^ j = (a + b) * 2 ^ j" by (simp only: distrib_right)
  have sum: "double_add P x y =
      (if a + b = 0 then double_enc (a < 0 \<and> b < 0) 0
       else double_round (a + b < 0) (nat \<bar>a + b\<bar> * 2 ^ j) 1)"
    unfolding double_add_def x y prod.case fpval.case Let_def signed_mag_int z
      scale_zero_iff scale_neg_iff nat_abs_scale ..
  show ?thesis
  proof (cases "a + b = 0")
    case True
    then have "(a < 0 \<and> b < 0) = False" by auto
    then have "double_add P x y = double_enc False 0" using True by (simp only: sum simp_thms if_True)
    with True show ?thesis
      by (simp add: double_round_def round_ratio_def round_shift_def round_sig_def)
  next
    case False
    then show ?thesis by (simp add: sum)
  qed
qed

lemma double_add_of_int:
  assumes "\<bar>a\<bar> \<le> 2 ^ 53" and "\<bar>b\<bar> \<le> 2 ^ 53"
  shows "double_add P (double_of_int a) (double_of_int b) = double_of_int (a + b)"
  using double_add_fin [OF double_val_of_int [OF assms(1)] double_val_of_int [OF assms(2)]]
  unfolding double_of_int_def [of "a + b"] .

section \<open>Formatting with \<open>%f\<close>\<close>

definition pad_zeros :: "nat \<Rightarrow> string \<Rightarrow> string" where
  "pad_zeros n s = replicate (n - length s) (CHR ''0'') @ s"

definition show_fixed6 :: "nat \<Rightarrow> string" where
  "show_fixed6 m =
     (let q = round_sig (m * 10 ^ 6) (2 ^ 1074)
      in show_nat (q div 10 ^ 6) @ ''.'' @ pad_zeros 6 (show_nat (q mod 10 ^ 6)))"

definition show_double :: "u64 \<Rightarrow> string" where
  "show_double w =
     (let sign = (if 2 ^ 63 \<le> unat w then ''-'' else '''')
      in case double_val w of
           FNaN \<Rightarrow> sign @ ''nan''
         | FInf s \<Rightarrow> sign @ ''inf''
         | FFin s m \<Rightarrow> sign @ show_fixed6 m)"

lemma double_val_sign: "double_val w = FFin s m \<Longrightarrow> s = (2 ^ 63 \<le> unat w)"
  by (auto simp: double_val_def Let_def split: if_splits)

lemma round_sig_exact: "0 < D \<Longrightarrow> round_sig (q * D) D = q"
  by (simp add: round_sig_def)

lemma show_fixed6_integer: "show_fixed6 (n * 2 ^ 1074) = show_nat n @ ''.000000''"
proof -
  define D :: nat where "D = 2 ^ 1074"
  have D: "0 < D" unfolding D_def by (rule zero_less_power) simp
  have "n * D * 10 ^ 6 = (n * 10 ^ 6) * D" by (simp only: mult.commute mult.left_commute)
  then have "round_sig (n * D * 10 ^ 6) D = n * 10 ^ 6" by (simp only: round_sig_exact [OF D])
  moreover have "(n * 10 ^ 6) div 10 ^ 6 = n" and "(n * 10 ^ 6) mod 10 ^ 6 = 0" by simp_all
  moreover have "show_nat 0 = ''0''" by code_simp
  moreover have "pad_zeros 6 ''0'' = ''000000''" by code_simp
  ultimately show ?thesis unfolding show_fixed6_def D_def [symmetric] Let_def by simp
qed

text \<open>An integer that is a \<open>double\<close> prints as itself with six zero decimals.\<close>

lemma show_double_of_int:
  assumes "\<bar>i\<bar> \<le> 2 ^ 53"
  shows "show_double (double_of_int i) = show_int i @ ''.000000''"
proof -
  note v = double_val_of_int [OF assms]
  from double_val_sign [OF v] have "2 ^ 63 \<le> unat (double_of_int i) \<longleftrightarrow> i < 0" by simp
  then show ?thesis
    unfolding show_double_def v Let_def fpval.case show_fixed6_integer
    by (simp add: show_int_def)
qed

end
