(* ===== verification/Client_Sockets.thy ===== *)
theory Client_Sockets
  imports Chat_Rooms Floating_Point
begin

text \<open>
  The \<open>ClientSocket\<close> of \<open>src/server/Server.{h,cpp}\<close>: its construction, move, destruction
  and TLS handshake, and what \<open>std::vector::erase\<close> does with a vector of them. OpenSSL,
  the socket calls and the clock are not part of the program: every call to them is an
  event of a history, and what they return is a parameter, the record \<open>env\<close>, of functions
  of the history so far. A history-dependent answer is as general as an arbitrary
  environment.
\<close>

section \<open>The environment\<close>

type_synonym ssl_ptr = nat

datatype ssl_error = SSL_ERROR_WANT_READ | SSL_ERROR_WANT_WRITE | SSL_ERROR_ZERO_RETURN | SSL_ERROR_OTHER

datatype event =
    Ev_SSL_new "ssl_ptr option"
  | Ev_SSL_set_fd ssl_ptr int int
  | Ev_SSL_accept ssl_ptr int
  | Ev_SSL_free ssl_ptr
  | Ev_SSL_shutdown ssl_ptr
  | Ev_SSL_write "ssl_ptr option" bytes int
  | Ev_SSL_read "ssl_ptr option" bytes
  | Ev_now int
  | Ev_poll int bool int int
  | Ev_select int "int set" int
  | Ev_accept int int
  | Ev_set_nonblocking int
  | Ev_shutdown int
  | Ev_close int

type_synonym history = "event list"

text \<open>
  \<open>poll_ret\<close> gives the result, whether \<open>errno\<close> is \<open>EINTR\<close>, and whether an error bit is
  set in \<open>revents\<close>; \<open>SSL_read_ret\<close> the bytes received, \<open>None\<close> for a result that is not
  positive; \<open>select_ret\<close> the result and the set left ready; \<open>uninit_ssl\<close> the value of a
  pointer member that the constructor leaves uninitialised; \<open>map_order\<close> the order in
  which the hash table of rooms is walked.
\<close>

record env =
  host :: endian
  fpe :: fp_env
  map_order :: "history \<Rightarrow> chat \<Rightarrow> u8 list"
  uninit_ssl :: "history \<Rightarrow> ssl_ptr option"
  SSL_new_ret :: "history \<Rightarrow> ssl_ptr option"
  SSL_set_fd_ret :: "history \<Rightarrow> int"
  SSL_accept_ret :: "history \<Rightarrow> ssl_ptr \<Rightarrow> int"
  SSL_get_error_ret :: "history \<Rightarrow> ssl_ptr \<Rightarrow> ssl_error"
  SSL_write_ret :: "history \<Rightarrow> ssl_ptr option \<Rightarrow> bytes \<Rightarrow> int"
  SSL_read_ret :: "history \<Rightarrow> ssl_ptr option \<Rightarrow> bytes option"
  now_ns :: "history \<Rightarrow> int"
  poll_ret :: "history \<Rightarrow> int \<Rightarrow> int \<times> bool \<times> bool"
  select_ret :: "history \<Rightarrow> int set \<Rightarrow> int \<times> int set"
  accept_ret :: "history \<Rightarrow> int"

section \<open>The structure\<close>

record ClientSocket =
  socket :: int
  ssl :: "ssl_ptr option"
  sslEnabled :: bool
  chatRoomJoined :: bool
  joinedChatRoomID :: u8
  clientID :: u64
  clientUsername :: bytes

definition INVALID_SOCKET :: int where
  "INVALID_SOCKET = - 1"

text \<open>The constructor from a descriptor; the pointer keeps whatever the storage held.\<close>

definition ClientSocket_new :: "ssl_ptr option \<Rightarrow> int \<Rightarrow> ClientSocket" where
  "ClientSocket_new junk fd =
     \<lparr>socket = fd, ssl = junk, sslEnabled = False, chatRoomJoined = False,
      joinedChatRoomID = 0, clientID = 0, clientUsername = ascii ''<unk>''\<rparr>"

text \<open>What both move operations leave in the source object.\<close>

definition moved_from :: ClientSocket where
  "moved_from =
     \<lparr>socket = INVALID_SOCKET, ssl = None, sslEnabled = False, chatRoomJoined = False,
      joinedChatRoomID = 0, clientID = 0, clientUsername = ascii ''<unk>''\<rparr>"

definition move_construct :: "ClientSocket \<Rightarrow> ClientSocket \<times> ClientSocket" where
  "move_construct other = (other, moved_from)"

definition move_assign ::
  "ClientSocket \<Rightarrow> ClientSocket \<Rightarrow> history \<Rightarrow> ClientSocket \<times> ClientSocket \<times> history" where
  "move_assign this other h =
     (let h1 = (case ssl this of Some p \<Rightarrow> h @ [Ev_SSL_free p] | None \<Rightarrow> h);
          h2 = (if socket this \<noteq> INVALID_SOCKET then h1 @ [Ev_close (socket this)] else h1)
      in (other, moved_from, h2))"

text \<open>A TLS object is dangling from its \<open>SSL_free\<close> until the allocator returns it again.\<close>

definition ssl_freed :: "ssl_ptr \<Rightarrow> history \<Rightarrow> bool" where
  "ssl_freed p h = (Ev_SSL_free p \<in> set (takeWhile (\<lambda>e. e \<noteq> Ev_SSL_new (Some p)) (rev h)))"

definition SSL_shutdown_call :: "ssl_ptr \<Rightarrow> history \<Rightarrow> fault + history" where
  "SSL_shutdown_call p h =
     (if ssl_freed p h then Inl Use_after_free else Inr (h @ [Ev_SSL_shutdown p]))"

definition destroy :: "ClientSocket \<Rightarrow> history \<Rightarrow> fault + history" where
  "destroy c h =
     (case ssl c of
        None \<Rightarrow> Inr h
      | Some p \<Rightarrow> SSL_shutdown_call p (h @ [Ev_SSL_free p]))"

definition close_socket :: "ClientSocket \<Rightarrow> history \<Rightarrow> history" where
  "close_socket c h = h @ [Ev_shutdown (socket c), Ev_close (socket c)]"

text \<open>
  \<open>vector::erase(first + i)\<close>: every later element is move-assigned one place down, then
  the last element is destroyed.
\<close>

fun shift_down :: "ClientSocket list \<Rightarrow> history \<Rightarrow> ClientSocket list \<times> history" where
  "shift_down (d # s # rest) h =
     (let (d', s', h') = move_assign d s h;
          (rest', h'') = shift_down (s' # rest) h'
      in (d' # rest', h''))"
| "shift_down xs h = (xs, h)"

definition vec_erase :: "nat \<Rightarrow> ClientSocket list \<Rightarrow> history \<Rightarrow> fault + ClientSocket list \<times> history" where
  "vec_erase i v h =
     (let (t, h') = shift_down (drop i v) h
      in case destroy (last t) h' of
           Inl f \<Rightarrow> Inl f
         | Inr h'' \<Rightarrow> Inr (take i v @ butlast t, h''))"

section \<open>The handshake\<close>

partial_function (option) handshake ::
  "env \<Rightarrow> int \<Rightarrow> ssl_ptr \<Rightarrow> int \<Rightarrow> history \<Rightarrow> (bool \<times> history) option" where
  "handshake E fd p deadline h =
     (let ret = SSL_accept_ret E h p; h1 = h @ [Ev_SSL_accept p ret]
      in if ret = 1 then Some (True, h1)
         else
           (let error = SSL_get_error_ret E h1 p
            in if error \<noteq> SSL_ERROR_WANT_READ \<and> error \<noteq> SSL_ERROR_WANT_WRITE
               then Some (False, h1 @ [Ev_SSL_free p])
               else
                 (let now = now_ns E h1; h2 = h1 @ [Ev_now now]
                  in if deadline \<le> now then Some (False, h2 @ [Ev_SSL_free p])
                     else
                       (let remaining = (deadline - now) div 1000000;
                            pr = poll_ret E h2 remaining;
                            h3 = h2 @ [Ev_poll fd (error = SSL_ERROR_WANT_READ) remaining (fst pr)]
                        in if fst pr = 0 then Some (False, h3 @ [Ev_SSL_free p])
                           else if fst pr < 0 then
                             (if fst (snd pr) then handshake E fd p deadline h3
                              else Some (False, h3 @ [Ev_SSL_free p]))
                           else if snd (snd pr) then Some (False, h3 @ [Ev_SSL_free p])
                           else handshake E fd p deadline h3))))"

definition InitSSL ::
  "env \<Rightarrow> ClientSocket \<Rightarrow> int \<Rightarrow> history \<Rightarrow> (bool \<times> ClientSocket \<times> history) option" where
  "InitSSL E c timeoutSeconds h =
     (let new = SSL_new_ret E h; h1 = h @ [Ev_SSL_new new]
      in case new of
           None \<Rightarrow> Some (False, c\<lparr>ssl := None\<rparr>, close_socket c h1)
         | Some p \<Rightarrow>
             (let r = SSL_set_fd_ret E h1; h2 = h1 @ [Ev_SSL_set_fd p (socket c) r]
              in if r \<noteq> 1
                 then Some (False, c\<lparr>ssl := None\<rparr>, close_socket c (h2 @ [Ev_SSL_free p]))
                 else
                   (let now = now_ns E h2; h3 = h2 @ [Ev_now now];
                        deadline = now + timeoutSeconds * 1000000000
                    in case handshake E (socket c) p deadline h3 of
                         None \<Rightarrow> None
                       | Some (ok, h4) \<Rightarrow>
                           (if ok then Some (True, c\<lparr>ssl := Some p, sslEnabled := True\<rparr>, h4)
                            else Some (False, c\<lparr>ssl := None, sslEnabled := False\<rparr>, h4)))))"

section \<open>Erasing an element\<close>

lemma shift_down_moved:
  "shift_down (moved_from # xs) h = (xs @ [moved_from], h)"
proof (induction xs arbitrary: h)
  case (Cons x xs)
  then show ?case
    by (simp add: move_assign_def moved_from_def INVALID_SOCKET_def)
qed simp

text \<open>The calls that releasing the resources of an element makes.\<close>

definition release_events :: "ClientSocket \<Rightarrow> history" where
  "release_events c =
     (case ssl c of Some p \<Rightarrow> [Ev_SSL_free p] | None \<Rightarrow> []) @
     (if socket c \<noteq> INVALID_SOCKET then [Ev_close (socket c)] else [])"

lemma shift_down_Cons2:
  "shift_down (d # s # rest) h = ((s # rest) @ [moved_from], h @ release_events d)"
  by (simp add: move_assign_def shift_down_moved release_events_def split: option.split)

lemma destroy_moved [simp]: "destroy moved_from h = Inr h"
  by (simp add: destroy_def moved_from_def)

lemma ssl_freed_now [simp]: "ssl_freed p (h @ [Ev_SSL_free p])"
  by (simp add: ssl_freed_def)

lemma destroy_live: "ssl c = Some p \<Longrightarrow> destroy c h = Inl Use_after_free"
  by (simp add: destroy_def SSL_shutdown_call_def)

text \<open>Away from the end of the vector, erasing is what it should be.\<close>

lemma vec_erase_inner:
  assumes "Suc i < length v"
  shows "vec_erase i v h = Inr (take i v @ drop (Suc i) v, h @ release_events (v ! i))"
proof -
  have "drop i v = v ! i # drop (Suc i) v"
    using assms by (simp add: Cons_nth_drop_Suc)
  moreover obtain s rest where "drop (Suc i) v = s # rest"
    using assms by (metis Cons_nth_drop_Suc)
  ultimately have "shift_down (drop i v) h = (drop (Suc i) v @ [moved_from], h @ release_events (v ! i))"
    by (simp only: shift_down_Cons2)
  then show ?thesis by (simp add: vec_erase_def)
qed

lemma drop_at_last: "Suc i = length v \<Longrightarrow> drop i v = [v ! i]"
  by (simp add: Cons_nth_drop_Suc [symmetric])

lemma vec_erase_last:
  assumes "Suc i = length v" and "ssl (v ! i) = Some p"
  shows "vec_erase i v h = Inl Use_after_free"
  using assms(2) by (simp add: vec_erase_def drop_at_last [OF assms(1)] destroy_live)

lemma vec_erase_length:
  assumes "vec_erase i v h = Inr (v', h')" and "i < length v"
  shows "length v' = length v - 1"
proof (cases "Suc i < length v")
  case True
  with assms show ?thesis by (auto simp: vec_erase_inner)
next
  case False
  with assms(2) have "drop i v = [v ! i]" by (intro drop_at_last) simp
  with assms False show ?thesis
    by (auto simp: vec_erase_def split: sum.splits)
qed

section \<open>The handshake ends, and leaves no TLS object behind\<close>

fun quiet_event :: "ssl_ptr \<Rightarrow> event \<Rightarrow> bool" where
  "quiet_event p (Ev_SSL_accept q r) = (q = p)"
| "quiet_event p (Ev_now t) = True"
| "quiet_event p (Ev_poll fd w ms r) = True"
| "quiet_event p e = False"

abbreviation quiet :: "ssl_ptr \<Rightarrow> history \<Rightarrow> bool" where
  "quiet p tr \<equiv> list_all (quiet_event p) tr"

definition handshake_post :: "ssl_ptr \<Rightarrow> history \<Rightarrow> bool \<times> history \<Rightarrow> bool" where
  "handshake_post p h r \<longleftrightarrow>
     (\<exists>tr. quiet p tr \<and> snd r = h @ tr @ [if fst r then Ev_SSL_accept p 1 else Ev_SSL_free p])"

lemma handshake_postI:
  assumes "quiet p tr" and "h' = h @ tr @ [if ok then Ev_SSL_accept p 1 else Ev_SSL_free p]"
  shows "handshake_post p h (ok, h')"
  using assms by (auto simp: handshake_post_def)

lemma handshake_post_prefix:
  assumes "handshake_post p (h @ pre) r" and "quiet p pre"
  shows "handshake_post p h r"
proof -
  from assms(1) obtain tr where "quiet p tr"
    and r: "snd r = (h @ pre) @ tr @ [if fst r then Ev_SSL_accept p 1 else Ev_SSL_free p]"
    unfolding handshake_post_def by blast
  with assms(2) have "quiet p (pre @ tr)" by simp
  moreover from r have "snd r = h @ (pre @ tr) @ [if fst r then Ev_SSL_accept p 1 else Ev_SSL_free p]"
    by (simp only: append.assoc)
  ultimately show ?thesis unfolding handshake_post_def by blast
qed

text \<open>
  On every way out, the calls made are attempts, clock readings and polls, followed by the
  successful attempt or by one \<open>SSL_free\<close>.
\<close>

lemma handshake_sound:
  assumes "handshake E fd p deadline h = Some r"
  shows "handshake_post p h r"
proof (rule handshake.raw_induct [where P = "\<lambda>E fd p deadline h r. handshake_post p h r", OF _ assms],
    goal_cases)
  case (1 f E fd p deadline h r)
  let ?h1 = "h @ [Ev_SSL_accept p (SSL_accept_ret E h p)]"
  let ?h2 = "?h1 @ [Ev_now (now_ns E ?h1)]"
  let ?ms = "(deadline - now_ns E ?h1) div 1000000"
  let ?w = "SSL_get_error_ret E ?h1 p = SSL_ERROR_WANT_READ"
  let ?h3 = "?h2 @ [Ev_poll fd ?w ?ms (fst (poll_ret E ?h2 ?ms))]"
  from 1(2) consider "r = (True, ?h1)" "SSL_accept_ret E h p = 1"
    | "r = (False, ?h1 @ [Ev_SSL_free p])" | "r = (False, ?h2 @ [Ev_SSL_free p])"
    | "r = (False, ?h3 @ [Ev_SSL_free p])" | "f E fd p deadline ?h3 = Some r"
    by (auto simp: Let_def split: if_splits)
  then show ?case
  proof cases
    case 1
    then show ?thesis by (simp add: handshake_postI [of p "[]"])
  next
    case 2
    then show ?thesis by (simp add: handshake_postI [of p "drop (length h) ?h1"])
  next
    case 3
    then show ?thesis by (simp add: handshake_postI [of p "drop (length h) ?h2"])
  next
    case 4
    then show ?thesis by (simp add: handshake_postI [of p "drop (length h) ?h3"])
  next
    case 5
    then have "handshake_post p ?h3 r" by (rule 1(1))
    then show ?thesis
      by (intro handshake_post_prefix [of p h "drop (length h) ?h3"]) simp_all
  qed
qed

text \<open>
  The steady clock passes every bound after enough calls; this is all that the loop needs
  in order to end, also when every \<open>poll\<close> is interrupted.
\<close>

definition clock_progress :: "env \<Rightarrow> bool" where
  "clock_progress E \<longleftrightarrow> (\<forall>t. \<exists>n. \<forall>h. n \<le> length h \<longrightarrow> t \<le> now_ns E h)"

lemma handshake_returns:
  assumes "\<And>h. n \<le> length h \<Longrightarrow> deadline \<le> now_ns E h"
  shows "\<exists>r. handshake E fd p deadline h = Some r"
proof (induction "n - length h" arbitrary: h rule: less_induct)
  case less
  let ?h1 = "h @ [Ev_SSL_accept p (SSL_accept_ret E h p)]"
  let ?h2 = "?h1 @ [Ev_now (now_ns E ?h1)]"
  show ?case
  proof (cases "deadline \<le> now_ns E ?h1")
    case True
    then show ?thesis by (subst handshake.simps) (auto simp: Let_def)
  next
    case False
    with assms [of ?h1] have "length h < n" by (cases "n \<le> length ?h1") auto
    then have "\<exists>r. handshake E fd p deadline (?h2 @ [e]) = Some r" for e
      by (intro less) simp
    then show ?thesis by (subst handshake.simps) (auto simp: Let_def)
  qed
qed

text \<open>
  A concrete environment: a little-endian machine, a clock that advances one second per
  call, TLS objects numbered by the length of the history, every handshake and every write
  successful, nothing to read, nobody connecting.
\<close>

definition sample_env :: env where
  "sample_env =
     \<lparr>host = Little_endian, fpe = sse_fp_env,
      map_order = (\<lambda>h m. filter (\<lambda>k. m k \<noteq> None) (map word_of_nat [0..<256])),
      uninit_ssl = (\<lambda>h. None),
      SSL_new_ret = (\<lambda>h. Some (length h)), SSL_set_fd_ret = (\<lambda>h. 1),
      SSL_accept_ret = (\<lambda>h p. 1), SSL_get_error_ret = (\<lambda>h p. SSL_ERROR_WANT_READ),
      SSL_write_ret = (\<lambda>h p bs. int (length bs)), SSL_read_ret = (\<lambda>h p. None),
      now_ns = (\<lambda>h. int (length h) * 1000000000), poll_ret = (\<lambda>h ms. (1, False, False)),
      select_ret = (\<lambda>h fds. (0, {})), accept_ret = (\<lambda>h. - 1)\<rparr>"

lemma sample_env_progress: "clock_progress sample_env"
  unfolding clock_progress_def
proof
  fix t
  show "\<exists>n. \<forall>h. n \<le> length h \<longrightarrow> t \<le> now_ns sample_env h"
    by (rule exI [of _ "nat t"]) (auto simp: sample_env_def)
qed

lemma InitSSL_trace:
  assumes "InitSSL E c timeoutSeconds h = Some (ok, c', h')"
  obtains (no_object) "\<not> ok" "c' = c\<lparr>ssl := None\<rparr>"
      "h' = h @ [Ev_SSL_new None, Ev_shutdown (socket c), Ev_close (socket c)]"
    | (no_descriptor) p r where "\<not> ok" "c' = c\<lparr>ssl := None\<rparr>" "SSL_new_ret E h = Some p"
      "h' = h @ [Ev_SSL_new (Some p), Ev_SSL_set_fd p (socket c) r, Ev_SSL_free p,
             Ev_shutdown (socket c), Ev_close (socket c)]"
    | (attempted) p t tr where "SSL_new_ret E h = Some p" "quiet p tr"
      "c' = c\<lparr>ssl := (if ok then Some p else None), sslEnabled := ok\<rparr>"
      "h' = h @ [Ev_SSL_new (Some p), Ev_SSL_set_fd p (socket c) 1, Ev_now t] @ tr @
             [if ok then Ev_SSL_accept p 1 else Ev_SSL_free p]"
proof -
  define h1 where "h1 = h @ [Ev_SSL_new (SSL_new_ret E h)]"
  show thesis
  proof (cases "SSL_new_ret E h")
    case None
    with assms show thesis by (intro no_object) (auto simp: InitSSL_def close_socket_def)
  next
    case (Some p)
    define h2 where "h2 = h1 @ [Ev_SSL_set_fd p (socket c) (SSL_set_fd_ret E h1)]"
    define h3 where "h3 = h2 @ [Ev_now (now_ns E h2)]"
    let ?d = "now_ns E h2 + timeoutSeconds * 1000000000"
    show thesis
    proof (cases "SSL_set_fd_ret E h1 = 1")
      case False
      with assms Some show thesis
        by (intro no_descriptor [of p "SSL_set_fd_ret E h1"])
          (auto simp: InitSSL_def h1_def Let_def close_socket_def)
    next
      case True
      with assms Some have hs: "handshake E (socket c) p ?d h3 = Some (ok, h')"
        and c': "c' = c\<lparr>ssl := (if ok then Some p else None), sslEnabled := ok\<rparr>"
        by (auto simp: InitSSL_def h1_def h2_def h3_def Let_def split: option.splits if_splits)
      from handshake_sound [OF hs] obtain tr where "quiet p tr"
        and "h' = h3 @ tr @ [if ok then Ev_SSL_accept p 1 else Ev_SSL_free p]"
        by (auto simp: handshake_post_def)
      with True Some c' show thesis
        by (intro attempted [of p tr "now_ns E h2"]) (simp_all add: h3_def h2_def h1_def)
    qed
  qed
qed

section \<open>Properties\<close>

text \<open>
  C18. The server-side TLS handshake of a new connection always comes to an end, whatever
  the peer sends or withholds and however often \<open>poll\<close> is interrupted, as long as the
  steady clock keeps advancing.
\<close>

theorem InitSSL_returns:
  assumes "clock_progress E"
  shows "\<exists>ok c' h'. InitSSL E c timeoutSeconds h = Some (ok, c', h')"
proof -
  have hs: "handshake E fd p deadline h3 \<noteq> None" for fd p deadline h3
  proof -
    from assms obtain n where "\<And>h. n \<le> length h \<Longrightarrow> deadline \<le> now_ns E h"
      unfolding clock_progress_def by blast
    then show ?thesis using handshake_returns [of n deadline E fd p h3] by auto
  qed
  have "InitSSL E c timeoutSeconds h \<noteq> None"
    unfolding InitSSL_def Let_def by (simp add: hs split: option.split del: not_None_eq)
  then show ?thesis by auto
qed

theorem InitSSL_returns_witness:
  "\<exists>ok c' h'. InitSSL sample_env (ClientSocket_new None 5) 10 [] = Some (ok, c', h')"
  using InitSSL_returns [OF sample_env_progress] .

text \<open>
  C19. A handshake either succeeds, and then the client holds a live TLS object with its
  flag set, or it fails, and then the client's pointer is null and every TLS object that
  the attempt created has been freed. No other member of the client changes.
\<close>

theorem InitSSL_contract:
  assumes "InitSSL E c timeoutSeconds h = Some (ok, c', h')"
  shows "\<exists>tr. h' = h @ tr \<and> c' = c\<lparr>ssl := ssl c', sslEnabled := sslEnabled c'\<rparr>
    \<and> (if ok then sslEnabled c' \<and>
          (\<exists>p. ssl c' = Some p \<and> Ev_SSL_new (Some p) \<in> set tr \<and> Ev_SSL_free p \<notin> set tr)
       else ssl c' = None \<and>
          (\<forall>p. Ev_SSL_new (Some p) \<in> set tr \<longrightarrow> Ev_SSL_free p \<in> set tr))"
proof -
  have quiet_no: "Ev_SSL_free q \<notin> set tr" "Ev_SSL_new q' \<notin> set tr" if "quiet p tr" for p q q' tr
    using that by (auto simp: list_all_iff)
  from assms show ?thesis
    by (rule InitSSL_trace) (auto dest: quiet_no)
qed

theorem InitSSL_contract_witness:
  "\<exists>c' h'. InitSSL sample_env (ClientSocket_new None 5) 10 [] = Some (True, c', h')
    \<and> ssl c' = Some 0 \<and> Ev_SSL_new (Some 0) \<in> set h' \<and> Ev_SSL_free 0 \<notin> set h'"
proof -
  let ?c = "ClientSocket_new None 5"
  obtain c' h' where run: "InitSSL sample_env ?c 10 [] = Some (True, c', h')" and "ssl c' = Some 0"
    by (simp add: InitSSL_def sample_env_def handshake.simps Let_def)
  with InitSSL_contract [OF run] show ?thesis by auto
qed

text \<open>
  C20. Erasing a client that is not the last of the vector closes its descriptor, frees its
  TLS object, and leaves all other clients unchanged and in order. Erasing the last one,
  while it holds a TLS object, runs the destructor on it, which shuts the object down
  after having freed it.
\<close>

theorem vec_erase_cases:
  assumes "i < length v" and "ssl (v ! i) = Some p" and "socket (v ! i) \<noteq> INVALID_SOCKET"
  shows "vec_erase i v h =
    (if Suc i < length v
     then Inr (take i v @ drop (Suc i) v, h @ [Ev_SSL_free p, Ev_close (socket (v ! i))])
     else Inl Use_after_free)"
  using assms vec_erase_last [of i v p h]
  by (auto simp: vec_erase_inner release_events_def not_less less_Suc_eq_le)

theorem vec_erase_cases_witness:
  "(let a = (ClientSocket_new (Some 1) 5); b = (ClientSocket_new (Some 2) 6)
    in vec_erase 0 [a, b] [] = Inr ([b], [Ev_SSL_free 1, Ev_close 5])
       \<and> vec_erase 1 [a, b] [] = Inl Use_after_free)"
  using vec_erase_cases [of 0 "[ClientSocket_new (Some 1) 5, ClientSocket_new (Some 2) 6]" 1 "[]"]
    vec_erase_cases [of 1 "[ClientSocket_new (Some 1) 5, ClientSocket_new (Some 2) 6]" 2 "[]"]
  by (simp add: ClientSocket_new_def INVALID_SOCKET_def)

end
