(* ===== verification/Number_Text.thy ===== *)
theory Number_Text
  imports Floating_Point
begin

text \<open>
  The two library parsers that \<open>NumParser.cpp\<close> calls, as functions on character lists:
  \<open>std::from_chars\<close> on 64-bit integers and \<open>strtof\<close> / \<open>strtod\<close>. Each returns what is
  left of the input, since the callers compare the end pointer with the end of the text.
\<close>

section \<open>Digits\<close>

definition char_digit :: "char \<Rightarrow> nat option" where
  "char_digit c =
     (let n = of_char c :: nat
      in if 48 \<le> n \<and> n \<le> 57 then Some (n - 48)
         else if 97 \<le> n \<and> n \<le> 122 then Some (n - 87)
         else if 65 \<le> n \<and> n \<le> 90 then Some (n - 55)
         else None)"

definition is_dig :: "nat \<Rightarrow> char \<Rightarrow> bool" where
  "is_dig b c = (case char_digit c of None \<Rightarrow> False | Some d \<Rightarrow> d < b)"

definition dig_val :: "char \<Rightarrow> nat" where
  "dig_val c = (case char_digit c of None \<Rightarrow> 0 | Some d \<Rightarrow> d)"

definition digits_val :: "nat \<Rightarrow> string \<Rightarrow> nat" where
  "digits_val b s = foldl (\<lambda>a c. a * b + dig_val c) 0 s"

lemma digits_val_Nil [simp]: "digits_val b [] = 0"
  by (simp add: digits_val_def)

lemma digits_val_snoc [simp]: "digits_val b (s @ [c]) = digits_val b s * b + dig_val c"
  by (simp add: digits_val_def)

lemma char_digit_digit_char: "d < 10 \<Longrightarrow> char_digit (digit_char d) = Some d"
  by (simp add: char_digit_def digit_char_def Let_def)

lemma is_dig_digit_char: "d < 10 \<Longrightarrow> is_dig 10 (digit_char d)"
  by (simp add: is_dig_def char_digit_digit_char)

lemma dig_val_digit_char: "d < 10 \<Longrightarrow> dig_val (digit_char d) = d"
  by (simp add: dig_val_def char_digit_digit_char)

lemma show_nat_digits: "c \<in> set (show_nat n) \<Longrightarrow> is_dig 10 c"
proof (induction n rule: show_nat.induct)
  case (1 n)
  show ?case
  proof (cases "n < 10")
    case True
    with "1.prems" show ?thesis by (simp add: show_nat.simps [of n] is_dig_digit_char)
  next
    case False
    with "1.prems" have "c = digit_char (n mod 10) \<or> c \<in> set (show_nat (n div 10))"
      by (simp add: show_nat.simps [of n])
    with "1.IH" False show ?thesis by (auto simp: is_dig_digit_char)
  qed
qed

lemma show_nat_not_Nil [simp]: "show_nat n \<noteq> []"
  by (simp add: show_nat.simps [of n])

lemma digits_val_show_nat [simp]: "digits_val 10 (show_nat n) = n"
proof (induction n rule: show_nat.induct)
  case (1 n)
  show ?case
  proof (cases "n < 10")
    case True
    then show ?thesis
      using digits_val_snoc [of 10 "[]" "digit_char n"]
      by (simp add: show_nat.simps [of n] dig_val_digit_char)
  next
    case False
    with "1.IH" show ?thesis by (simp add: show_nat.simps [of n] dig_val_digit_char)
  qed
qed

lemma takeWhile_show_nat [simp]: "takeWhile (is_dig 10) (show_nat n) = show_nat n"
  and dropWhile_show_nat [simp]: "dropWhile (is_dig 10) (show_nat n) = []"
  by (auto simp: show_nat_digits)

section \<open>\<open>std::from_chars\<close>\<close>

datatype errc = Ec_ok | Ec_invalid_argument | Ec_result_out_of_range

text \<open>
  The longest run of digits of the base; no sign and no prefix. With no digit the pointer
  stays at the start, with too large a value it is past the digits.
\<close>

definition from_chars_unsigned :: "nat \<Rightarrow> nat \<Rightarrow> string \<Rightarrow> errc \<times> nat \<times> string" where
  "from_chars_unsigned mx b s =
     (let ds = takeWhile (is_dig b) s; rest = dropWhile (is_dig b) s
      in if ds = [] then (Ec_invalid_argument, 0, s)
         else if mx < digits_val b ds then (Ec_result_out_of_range, 0, rest)
         else (Ec_ok, digits_val b ds, rest))"

text \<open>A signed target accepts one leading minus, and nothing else, before the digits.\<close>

definition from_chars_i64 :: "nat \<Rightarrow> string \<Rightarrow> errc \<times> int \<times> string" where
  "from_chars_i64 b s =
     (case s of
        c # r \<Rightarrow>
          if c = CHR ''-'' then
            (case from_chars_unsigned (2 ^ 63) b r of
               (Ec_ok, v, rest) \<Rightarrow> (Ec_ok, - int v, rest)
             | (Ec_invalid_argument, v, rest) \<Rightarrow> (Ec_invalid_argument, 0, s)
             | (Ec_result_out_of_range, v, rest) \<Rightarrow> (Ec_result_out_of_range, 0, rest))
          else (case from_chars_unsigned (2 ^ 63 - 1) b s of (ec, v, rest) \<Rightarrow> (ec, int v, rest))
      | [] \<Rightarrow> (Ec_invalid_argument, 0, s))"

definition from_chars_u64 :: "nat \<Rightarrow> string \<Rightarrow> errc \<times> nat \<times> string" where
  "from_chars_u64 b s = from_chars_unsigned (2 ^ 64 - 1) b s"

section \<open>\<open>strtof\<close> and \<open>strtod\<close>\<close>

definition is_space :: "char \<Rightarrow> bool" where
  "is_space c = (let n = of_char c :: nat in n = 32 \<or> (9 \<le> n \<and> n \<le> 13))"

definition lower :: "char \<Rightarrow> char" where
  "lower c = (let n = of_char c :: nat in if 65 \<le> n \<and> n \<le> 90 then char_of (n + 32) else c)"

definition ci_prefix :: "string \<Rightarrow> string \<Rightarrow> bool" where
  "ci_prefix w s = (map lower (take (length w) s) = w)"

definition is_nan_char :: "char \<Rightarrow> bool" where
  "is_nan_char c = (char_digit c \<noteq> None \<or> c = CHR ''_'')"

definition scan_sign :: "string \<Rightarrow> bool \<times> string" where
  "scan_sign s =
     (case s of
        c # r \<Rightarrow> if c = CHR ''-'' then (True, r) else if c = CHR ''+'' then (False, r) else (False, s)
      | [] \<Rightarrow> (False, s))"

definition scan_exp :: "char \<Rightarrow> string \<Rightarrow> int \<times> string" where
  "scan_exp e s =
     (case s of
        c # r \<Rightarrow>
          if lower c = e then
            (let (neg, r1) = scan_sign r; ds = takeWhile (is_dig 10) r1
             in if ds = [] then (0, s)
                else ((if neg then - int (digits_val 10 ds) else int (digits_val 10 ds)),
                      dropWhile (is_dig 10) r1))
          else (0, s)
      | [] \<Rightarrow> (0, s))"

definition scan_mant :: "nat \<Rightarrow> string \<Rightarrow> (nat \<times> nat \<times> string) option" where
  "scan_mant b s =
     (let ip = takeWhile (is_dig b) s; r = dropWhile (is_dig b) s;
          dot = (r \<noteq> [] \<and> hd r = CHR ''.'');
          fp = (if dot then takeWhile (is_dig b) (tl r) else []);
          r' = (if dot then dropWhile (is_dig b) (tl r) else r)
      in if ip @ fp = [] then None else Some (digits_val b (ip @ fp), length fp, r'))"

datatype fp_lit = Lit_inf | Lit_nan string | Lit_ratio nat nat

definition scaled_lit :: "nat \<Rightarrow> nat \<Rightarrow> int \<Rightarrow> fp_lit" where
  "scaled_lit m b x = (if 0 \<le> x then Lit_ratio (m * b ^ nat x) 1 else Lit_ratio m (b ^ nat (- x)))"

definition scan_hex :: "string \<Rightarrow> (fp_lit \<times> string) option" where
  "scan_hex s =
     (if ci_prefix ''0x'' s then
        (case scan_mant 16 (drop 2 s) of
           None \<Rightarrow> None
         | Some (m, f, r) \<Rightarrow>
             (case scan_exp (CHR ''p'') r of (x, r') \<Rightarrow> Some (scaled_lit m 2 (x - 4 * int f), r')))
      else None)"

definition scan_dec :: "string \<Rightarrow> (fp_lit \<times> string) option" where
  "scan_dec s =
     (case scan_mant 10 s of
        None \<Rightarrow> None
      | Some (m, f, r) \<Rightarrow>
          (case scan_exp (CHR ''e'') r of (x, r') \<Rightarrow> Some (scaled_lit m 10 (x - int f), r')))"

definition scan_nan :: "string \<Rightarrow> fp_lit \<times> string" where
  "scan_nan r =
     (let cs = takeWhile is_nan_char (tl r); r' = dropWhile is_nan_char (tl r)
      in if r \<noteq> [] \<and> hd r = CHR ''('' \<and> r' \<noteq> [] \<and> hd r' = CHR '')''
         then (Lit_nan cs, tl r') else (Lit_nan '''', r))"

text \<open>The subject sequence: sign, literal, rest; \<open>None\<close> when no conversion is performed.\<close>

definition strto_scan :: "string \<Rightarrow> (bool \<times> fp_lit \<times> string) option" where
  "strto_scan s =
     (let (neg, t) = scan_sign (dropWhile is_space s)
      in if ci_prefix ''infinity'' t then Some (neg, Lit_inf, drop 8 t)
         else if ci_prefix ''inf'' t then Some (neg, Lit_inf, drop 3 t)
         else if ci_prefix ''nan'' t then (case scan_nan (drop 3 t) of (l, r) \<Rightarrow> Some (neg, l, r))
         else (case scan_hex t of
                 Some (l, r) \<Rightarrow> Some (neg, l, r)
               | None \<Rightarrow> (case scan_dec t of Some (l, r) \<Rightarrow> Some (neg, l, r) | None \<Rightarrow> None)))"

definition double_lit :: "fp_env \<Rightarrow> bool \<Rightarrow> fp_lit \<Rightarrow> u64" where
  "double_lit P neg l =
     (case l of
        Lit_inf \<Rightarrow> double_enc neg double_inf_bits
      | Lit_nan cs \<Rightarrow> strtod_nan P neg cs
      | Lit_ratio n d \<Rightarrow> double_round neg (n * 2 ^ 1074) d)"

definition float_lit :: "fp_env \<Rightarrow> bool \<Rightarrow> fp_lit \<Rightarrow> u32" where
  "float_lit P neg l =
     (case l of
        Lit_inf \<Rightarrow> float_enc neg float_inf_bits
      | Lit_nan cs \<Rightarrow> strtof_nan P neg cs
      | Lit_ratio n d \<Rightarrow> float_round neg (n * 2 ^ 149) d)"

definition strtod :: "fp_env \<Rightarrow> string \<Rightarrow> u64 \<times> string" where
  "strtod P s =
     (case strto_scan s of None \<Rightarrow> (0, s) | Some (neg, l, r) \<Rightarrow> (double_lit P neg l, r))"

definition strtof :: "fp_env \<Rightarrow> string \<Rightarrow> u32 \<times> string" where
  "strtof P s =
     (case strto_scan s of None \<Rightarrow> (0, s) | Some (neg, l, r) \<Rightarrow> (float_lit P neg l, r))"

end
