(* ===== verification/Number_Parser.thy ===== *)
theory Number_Parser
  imports Number_Text
begin

text \<open>
  \<open>src/common/NumParser.{h,cpp}\<close>: the \<open>Number\<close> variant, the textual parser behind the
  client's \<open>add\<close>, \<open>join\<close> and \<open>send-msg\<close> commands, and the binary codec of the
  addition request. A thrown standard exception is a left value.
\<close>

section \<open>Data\<close>

text \<open>The alternatives of the variant; \<open>float\<close> and \<open>double\<close> by their bits.\<close>

datatype Number =
    Int8 "8 word" | Uint8 "8 word"
  | Int16 "16 word" | Uint16 "16 word"
  | Int32 "32 word" | Uint32 "32 word"
  | Int64 "64 word" | Uint64 "64 word"
  | Float "32 word" | Double "64 word"

datatype eNumberTypes =
    N_INT8 | N_UINT8 | N_INT16 | N_UINT16 | N_INT32 | N_UINT32
  | N_INT64 | N_UINT64 | N_FLOAT | N_DOUBLE | N_UNK

primrec type_code :: "eNumberTypes \<Rightarrow> u8" where
  "type_code N_INT8 = 0"
| "type_code N_UINT8 = 1"
| "type_code N_INT16 = 2"
| "type_code N_UINT16 = 3"
| "type_code N_INT32 = 4"
| "type_code N_UINT32 = 5"
| "type_code N_INT64 = 6"
| "type_code N_UINT64 = 7"
| "type_code N_FLOAT = 8"
| "type_code N_DOUBLE = 9"
| "type_code N_UNK = 10"

datatype IntegerSuffix = Sfx_None | Sfx_U | Sfx_L | Sfx_UL | Sfx_LL | Sfx_ULL

text \<open>The mathematical value of an integer alternative.\<close>

primrec num_int :: "Number \<Rightarrow> int option" where
  "num_int (Int8 w) = Some (sint w)"
| "num_int (Uint8 w) = Some (uint w)"
| "num_int (Int16 w) = Some (sint w)"
| "num_int (Uint16 w) = Some (uint w)"
| "num_int (Int32 w) = Some (sint w)"
| "num_int (Uint32 w) = Some (uint w)"
| "num_int (Int64 w) = Some (sint w)"
| "num_int (Uint64 w) = Some (uint w)"
| "num_int (Float w) = None"
| "num_int (Double w) = None"

section \<open>Textual parsing\<close>

definition parse_integer_u64 :: "string \<Rightarrow> nat \<Rightarrow> u64 option" where
  "parse_integer_u64 s base =
     (case from_chars_u64 base s of
        (ec, v, rest) \<Rightarrow> if ec = Ec_ok \<and> rest = [] then Some (word_of_nat v) else None)"

definition parse_integer_i64 :: "string \<Rightarrow> nat \<Rightarrow> int option" where
  "parse_integer_i64 s base =
     (case from_chars_i64 base s of
        (ec, v, rest) \<Rightarrow> if ec = Ec_ok \<and> rest = [] then Some v else None)"

text \<open>
  The temporary is a C string, so a NUL character stops the conversion before the end that
  the caller compares with.
\<close>

definition parse_float32 :: "fp_env \<Rightarrow> string \<Rightarrow> u32 option" where
  "parse_float32 P s =
     (case strtof P (takeWhile (\<lambda>c. c \<noteq> CHR 0x00) s) of
        (v, rest) \<Rightarrow> if rest = [] \<and> CHR 0x00 \<notin> set s then Some v else None)"

definition parse_float64 :: "fp_env \<Rightarrow> string \<Rightarrow> u64 option" where
  "parse_float64 P s =
     (case strtod P (takeWhile (\<lambda>c. c \<noteq> CHR 0x00) s) of
        (v, rest) \<Rightarrow> if rest = [] \<and> CHR 0x00 \<notin> set s then Some v else None)"

definition ends_with :: "string \<Rightarrow> string \<Rightarrow> bool" where
  "ends_with s suffix \<longleftrightarrow> length suffix \<le> length s \<and> drop (length s - length suffix) s = suffix"

definition remove_suffix :: "string \<Rightarrow> string \<times> IntegerSuffix" where
  "remove_suffix s =
     (if ends_with s ''ULL'' \<or> ends_with s ''ull'' then (take (length s - 3) s, Sfx_ULL)
      else if ends_with s ''UL'' \<or> ends_with s ''ul'' then (take (length s - 2) s, Sfx_UL)
      else if ends_with s ''LL'' \<or> ends_with s ''ll'' then (take (length s - 2) s, Sfx_LL)
      else if ends_with s ''U'' \<or> ends_with s ''u'' then (take (length s - 1) s, Sfx_U)
      else if ends_with s ''L'' \<or> ends_with s ''l'' then (take (length s - 1) s, Sfx_L)
      else (s, Sfx_None))"

definition narrow_suffixed :: "u64 \<Rightarrow> Number" where
  "narrow_suffixed value =
     (if value \<le> 255 then Uint8 (ucast value)
      else if value \<le> 65535 then Uint16 (ucast value)
      else if value \<le> 4294967295 then Uint32 (ucast value)
      else Uint64 value)"

definition narrow_negative :: "int \<Rightarrow> Number" where
  "narrow_negative value =
     (if - 128 \<le> value then Int8 (word_of_int value)
      else if - 32768 \<le> value then Int16 (word_of_int value)
      else if - 2147483648 \<le> value then Int32 (word_of_int value)
      else Int64 (word_of_int value))"

definition narrow_positive :: "u64 \<Rightarrow> Number" where
  "narrow_positive value =
     (if value \<le> 255 then Uint8 (ucast value)
      else if value \<le> 65535 then Uint16 (ucast value)
      else if value \<le> 4294967295 then Uint32 (ucast value)
      else if value \<le> 32767 then Int16 (ucast value)
      else if value \<le> 65535 then Uint16 (ucast value)
      else if value \<le> 2147483647 then Int32 (ucast value)
      else if value \<le> 4294967295 then Uint32 (ucast value)
      else if value \<le> 9223372036854775807 then Int64 value
      else Uint64 value)"

definition is_hex_prefixed :: "string \<Rightarrow> bool" where
  "is_hex_prefixed s \<longleftrightarrow> 2 \<le> length s \<and> s ! 0 = CHR ''0'' \<and> (s ! 1 = CHR ''x'' \<or> s ! 1 = CHR ''X'')"

definition parse_integer_number :: "string \<Rightarrow> fault + Number" where
  "parse_integer_number input =
     (let (s, suffix) = remove_suffix input;
          negative = (s \<noteq> [] \<and> hd s = CHR ''-'');
          hex = is_hex_prefixed s;
          base = (if hex then 16 else 10);
          s' = (if hex then drop 2 s else s)
      in if hex \<and> negative then Inl (Invalid_argument ''negative hexadecimal not supported'')
         else if suffix = Sfx_U \<or> suffix = Sfx_UL \<or> suffix = Sfx_ULL then
           (case parse_integer_u64 s' base of
              None \<Rightarrow> Inl (Out_of_range ''integer does not fit uint64_t'')
            | Some value \<Rightarrow> Inr (narrow_suffixed value))
         else if suffix = Sfx_LL then
           (case parse_integer_i64 s' base of
              None \<Rightarrow> Inl (Out_of_range ''integer does not fit int64_t'')
            | Some value \<Rightarrow> Inr (Int64 (word_of_int value)))
         else if suffix = Sfx_L then
           (case parse_integer_i64 s' base of
              None \<Rightarrow> Inl (Out_of_range ''integer does not fit int64_t'')
            | Some value \<Rightarrow> Inr (Int64 (word_of_int value)))
         else if negative then
           (case parse_integer_i64 s' base of
              None \<Rightarrow> Inl (Out_of_range ''integer does not fit int64_t'')
            | Some value \<Rightarrow> Inr (narrow_negative value))
         else
           (case parse_integer_u64 s' base of
              None \<Rightarrow> Inl (Out_of_range ''integer does not fit uint64_t'')
            | Some value \<Rightarrow> Inr (narrow_positive value)))"

definition parse_number :: "fp_env \<Rightarrow> string \<Rightarrow> fault + Number" where
  "parse_number P s =
     (if s = [] then Inl (Invalid_argument ''empty number'')
      else if last s = CHR ''f'' \<or> last s = CHR ''F'' then
        (case parse_float32 P (take (length s - 1) s) of
           None \<Rightarrow> Inl (Invalid_argument ''invalid float'')
         | Some value \<Rightarrow> Inr (Float value))
      else if CHR ''.'' \<in> set s \<or> CHR ''e'' \<in> set s \<or> CHR ''E'' \<in> set s then
        (case parse_float64 P s of
           None \<Rightarrow> Inl (Invalid_argument ''invalid double'')
         | Some value \<Rightarrow> Inr (Double value))
      else parse_integer_number s)"

section \<open>Type tags, predicates and text of a number\<close>

primrec get_number_type :: "Number \<Rightarrow> eNumberTypes" where
  "get_number_type (Int8 w) = N_INT8"
| "get_number_type (Uint8 w) = N_UINT8"
| "get_number_type (Int16 w) = N_INT16"
| "get_number_type (Uint16 w) = N_UINT16"
| "get_number_type (Int32 w) = N_INT32"
| "get_number_type (Uint32 w) = N_UINT32"
| "get_number_type (Int64 w) = N_INT64"
| "get_number_type (Uint64 w) = N_UINT64"
| "get_number_type (Float w) = N_FLOAT"
| "get_number_type (Double w) = N_DOUBLE"

primrec is_unsigned_integer :: "Number \<Rightarrow> bool" where
  "is_unsigned_integer (Int8 w) = False"
| "is_unsigned_integer (Uint8 w) = True"
| "is_unsigned_integer (Int16 w) = False"
| "is_unsigned_integer (Uint16 w) = True"
| "is_unsigned_integer (Int32 w) = False"
| "is_unsigned_integer (Uint32 w) = True"
| "is_unsigned_integer (Int64 w) = False"
| "is_unsigned_integer (Uint64 w) = True"
| "is_unsigned_integer (Float w) = False"
| "is_unsigned_integer (Double w) = False"

definition is_uint8_t :: "Number \<Rightarrow> bool" where
  "is_uint8_t n = (case n of Uint8 w \<Rightarrow> True | _ \<Rightarrow> False)"

primrec number_to_string :: "fp_env \<Rightarrow> Number \<Rightarrow> string" where
  "number_to_string P (Int8 w) = show_int (sint w)"
| "number_to_string P (Uint8 w) = show_nat (unat w)"
| "number_to_string P (Int16 w) = show_int (sint w)"
| "number_to_string P (Uint16 w) = show_nat (unat w)"
| "number_to_string P (Int32 w) = show_int (sint w)"
| "number_to_string P (Uint32 w) = show_nat (unat w)"
| "number_to_string P (Int64 w) = show_int (sint w)"
| "number_to_string P (Uint64 w) = show_nat (unat w)"
| "number_to_string P (Float w) = show_double (double_of_float P w)"
| "number_to_string P (Double w) = show_double w"

text \<open>\<open>static_cast<double>\<close> of the active alternative.\<close>

primrec number_to_double :: "fp_env \<Rightarrow> Number \<Rightarrow> u64" where
  "number_to_double P (Int8 w) = double_of_int (sint w)"
| "number_to_double P (Uint8 w) = double_of_int (uint w)"
| "number_to_double P (Int16 w) = double_of_int (sint w)"
| "number_to_double P (Uint16 w) = double_of_int (uint w)"
| "number_to_double P (Int32 w) = double_of_int (sint w)"
| "number_to_double P (Uint32 w) = double_of_int (uint w)"
| "number_to_double P (Int64 w) = double_of_int (sint w)"
| "number_to_double P (Uint64 w) = double_of_int (uint w)"
| "number_to_double P (Float w) = double_of_float P w"
| "number_to_double P (Double w) = w"

section \<open>Binary codec\<close>

primrec number_bytes :: "endian \<Rightarrow> Number \<Rightarrow> bytes" where
  "number_bytes e (Int8 w) = mem_bytes e w"
| "number_bytes e (Uint8 w) = mem_bytes e w"
| "number_bytes e (Int16 w) = mem_bytes e w"
| "number_bytes e (Uint16 w) = mem_bytes e w"
| "number_bytes e (Int32 w) = mem_bytes e w"
| "number_bytes e (Uint32 w) = mem_bytes e w"
| "number_bytes e (Int64 w) = mem_bytes e w"
| "number_bytes e (Uint64 w) = mem_bytes e w"
| "number_bytes e (Float w) = mem_bytes e w"
| "number_bytes e (Double w) = mem_bytes e w"

definition append_number :: "endian \<Rightarrow> bytes \<Rightarrow> Number \<Rightarrow> bytes" where
  "append_number e replyStr number = replyStr @ number_bytes e number"

text \<open>One case of the switch: copy \<open>k\<close> bytes, advance the offset, tag the value.\<close>

definition read_as ::
  "nat \<Rightarrow> (bytes \<Rightarrow> Number) \<Rightarrow> bytes \<Rightarrow> nat \<Rightarrow> fault + Number \<times> nat" where
  "read_as k mk buffer offset =
     (case read_at buffer offset k of Inl f \<Rightarrow> Inl f | Inr bs \<Rightarrow> Inr (mk bs, offset + k))"

definition read_number :: "endian \<Rightarrow> bytes \<Rightarrow> nat \<Rightarrow> u8 \<Rightarrow> fault + Number \<times> nat" where
  "read_number e buffer offset type =
     (if type = type_code N_INT8 then read_as 1 (\<lambda>bs. Int8 (of_mem e bs)) buffer offset
      else if type = type_code N_UINT8 then read_as 1 (\<lambda>bs. Uint8 (of_mem e bs)) buffer offset
      else if type = type_code N_INT16 then read_as 2 (\<lambda>bs. Int16 (of_mem e bs)) buffer offset
      else if type = type_code N_UINT16 then read_as 2 (\<lambda>bs. Uint16 (of_mem e bs)) buffer offset
      else if type = type_code N_INT32 then read_as 4 (\<lambda>bs. Int32 (of_mem e bs)) buffer offset
      else if type = type_code N_UINT32 then read_as 4 (\<lambda>bs. Uint32 (of_mem e bs)) buffer offset
      else if type = type_code N_INT64 then read_as 8 (\<lambda>bs. Int64 (of_mem e bs)) buffer offset
      else if type = type_code N_UINT64 then read_as 8 (\<lambda>bs. Uint64 (of_mem e bs)) buffer offset
      else if type = type_code N_FLOAT then read_as 4 (\<lambda>bs. Float (of_mem e bs)) buffer offset
      else if type = type_code N_DOUBLE then read_as 8 (\<lambda>bs. Double (of_mem e bs)) buffer offset
      else Inl (Runtime_error ''Unknown number type''))"

section \<open>The codec is a round trip\<close>

lemmas mem_decs = mem16.dec_enc mem32.dec_enc mem64.dec_enc

lemma read_number_append:
  assumes "length pre = offset"
  shows "read_number e (pre @ number_bytes e n @ rest) offset (type_code (get_number_type n)) =
    Inr (n, offset + length (number_bytes e n))"
  using assms
  by (cases n) (simp_all add: read_number_def read_as_def read_at_def mem_decs)

lemma read_as_Inr:
  "read_as k mk buffer offset = Inr r \<longleftrightarrow>
     offset + k \<le> length buffer \<and> r = (mk (take k (drop offset buffer)), offset + k)"
  by (auto simp: read_as_def read_at_def)

lemma read_number_advances:
  assumes "read_number e buffer offset t = Inr (n, offset')"
  shows "offset < offset' \<and> offset' \<le> offset + 8 \<and> offset' \<le> length buffer"
  using assms by (auto simp: read_number_def read_as_Inr split: if_splits)

lemma read_number_unknown:
  assumes "9 < t"
  shows "read_number e buffer offset t = Inl (Runtime_error ''Unknown number type'')"
  using assms by (auto simp: read_number_def)

lemma length_number_bytes: "0 < length (number_bytes e n) \<and> length (number_bytes e n) \<le> 8"
  by (cases n) simp_all

lemma type_code_get_number_type: "type_code (get_number_type n) \<le> 9"
  by (cases n) simp_all

text \<open>The numbers of an addition request, each as its type code and its bytes.\<close>

definition tagged :: "endian \<Rightarrow> Number \<Rightarrow> bytes" where
  "tagged e n = type_code (get_number_type n) # number_bytes e n"

lemma length_tagged: "2 \<le> length (tagged e n) \<and> length (tagged e n) \<le> 9"
  using length_number_bytes [of e n] by (simp add: tagged_def Suc_le_eq)

lemma concat_tagged_length: "2 * length ns \<le> length (concat (map (tagged e) ns))"
proof (induction ns)
  case (Cons n ns)
  with length_tagged [of e n] show ?case by simp
qed simp

section \<open>Integer literals keep their value\<close>

lemma ucast_le_uint:
  fixes v :: u64
  assumes "v \<le> word_of_nat m" and "m < 2 ^ LENGTH('a)" and "m < 2 ^ 64"
  shows "uint (ucast v :: 'a::len word) = uint v"
proof -
  have "unat v \<le> m"
    using assms(1,3) by (simp add: word_le_nat_alt unat_of_nat)
  with assms(2) have "unat v < 2 ^ LENGTH('a)" by linarith
  then have "unat (ucast v :: 'a word) = unat v"
    by (simp add: unsigned_ucast_eq take_bit_nat_eq_self)
  then show ?thesis
    by (metis of_nat_unat)
qed

lemma narrow_suffixed_val: "num_int (narrow_suffixed v) = Some (uint v)"
  using ucast_le_uint [of v 255, where 'a = 8] ucast_le_uint [of v 65535, where 'a = 16]
    ucast_le_uint [of v 4294967295, where 'a = 32]
  by (simp add: narrow_suffixed_def)

lemma sint_eq_uint_small:
  fixes v :: u64
  assumes "v \<le> 9223372036854775807"
  shows "sint v = uint v"
proof -
  from assms have "unat v \<le> 9223372036854775807" by (simp add: word_le_nat_alt)
  then have "int (unat v) \<le> 9223372036854775807" by linarith
  then have "uint v < 2 ^ 63" by simp
  moreover have "- (2 ^ 63) \<le> uint v" using unsigned_greater_eq [of v] by (rule order_trans [rotated]) simp
  ultimately have "signed_take_bit 63 (uint v) = uint v" by (rule signed_take_bit_int_eq_self [rotated])
  then show ?thesis by (simp add: sint_uint)
qed

text \<open>
  The nine tests of the last branch collapse to four results: the tests after the third
  one that repeat a smaller bound can never succeed.
\<close>

lemma narrow_positive_eq:
  "narrow_positive v =
     (if v \<le> 255 then Uint8 (ucast v) else if v \<le> 65535 then Uint16 (ucast v)
      else if v \<le> 4294967295 then Uint32 (ucast v)
      else if v \<le> 9223372036854775807 then Int64 v else Uint64 v)"
proof -
  have le: "v \<le> w" if "v \<le> u" "u \<le> w" for u w :: u64 using that by (rule order_trans)
  have "\<not> v \<le> 4294967295 \<Longrightarrow> \<not> v \<le> 32767 \<and> \<not> v \<le> 65535 \<and> \<not> v \<le> 2147483647"
    using le [of 32767 4294967295] le [of 65535 4294967295] le [of 2147483647 4294967295] by auto
  then show ?thesis by (auto simp: narrow_positive_def)
qed

lemma narrow_positive_val: "num_int (narrow_positive v) = Some (uint v)"
  using narrow_suffixed_val [of v] sint_eq_uint_small [of v]
  by (auto simp: narrow_positive_eq narrow_suffixed_def split: if_splits)

lemma sint_of_int_range:
  assumes "- (2 ^ (LENGTH('a) - 1)) \<le> i" and "i < 2 ^ (LENGTH('a) - 1)"
  shows "sint (word_of_int i :: 'a::len word) = i"
  using assms by (simp add: sint_sbintrunc' signed_take_bit_int_eq_self)

lemma narrow_negative_val:
  assumes "- (2 ^ 63) \<le> i" and "i \<le> 0"
  shows "num_int (narrow_negative i) = Some i"
  using assms sint_of_int_range [of i, where 'a = 8] sint_of_int_range [of i, where 'a = 16]
    sint_of_int_range [of i, where 'a = 32] sint_of_int_range [of i, where 'a = 64]
  by (simp add: narrow_negative_def)

text \<open>
  What an accepted literal denotes, once its suffix is off. The sign is looked for after
  the base prefix, where \<open>std::from_chars\<close> looks for it.
\<close>

definition literal_base :: "string \<Rightarrow> nat" where
  "literal_base s = (if is_hex_prefixed s then 16 else 10)"

definition literal_body :: "string \<Rightarrow> string" where
  "literal_body s = (if is_hex_prefixed s then drop 2 s else s)"

definition literal_val :: "string \<Rightarrow> int" where
  "literal_val s =
     (let t = literal_body s; b = literal_base s
      in if t \<noteq> [] \<and> hd t = CHR ''-'' then - int (digits_val b (tl t)) else int (digits_val b t))"

lemma dropWhile_Nil_takeWhile: "dropWhile P s = [] \<Longrightarrow> takeWhile P s = s"
  by (metis append_Nil2 takeWhile_dropWhile_id)

lemma from_chars_unsigned_all:
  assumes "from_chars_unsigned mx b s = (Ec_ok, v, [])"
  shows "v = digits_val b s" and "v \<le> mx"
  using assms by (auto simp: from_chars_unsigned_def Let_def dropWhile_Nil_takeWhile split: if_splits)

lemma parse_integer_u64_Some:
  assumes "parse_integer_u64 s b = Some v"
  shows "uint v = int (digits_val b s)"
proof -
  from assms obtain n where n: "from_chars_unsigned (2 ^ 64 - 1) b s = (Ec_ok, n, [])"
    and v: "v = word_of_nat n"
    by (auto simp: parse_integer_u64_def from_chars_u64_def split: prod.splits if_splits)
  from from_chars_unsigned_all [OF n] show ?thesis
    by (simp add: v unsigned_of_nat take_bit_nat_eq_self)
qed

lemma is_dig_minus [simp]: "\<not> is_dig b (CHR ''-'')"
  by (simp add: is_dig_def char_digit_def)

lemma parse_integer_i64_Some:
  assumes "parse_integer_i64 s b = Some v"
  shows "- (2 ^ 63) \<le> v \<and> v < 2 ^ 63 \<and>
    v = (if s \<noteq> [] \<and> hd s = CHR ''-'' then - int (digits_val b (tl s)) else int (digits_val b s))"
proof (cases "s \<noteq> [] \<and> hd s = CHR ''-''")
  case True
  then obtain r where s: "s = CHR ''-'' # r" by (cases s) auto
  with assms obtain n where n: "from_chars_unsigned (2 ^ 63) b r = (Ec_ok, n, [])"
    and v: "v = - int n"
    by (auto simp: parse_integer_i64_def from_chars_i64_def split: prod.splits if_splits errc.splits)
  from from_chars_unsigned_all [OF n] show ?thesis by (simp add: s v)
next
  case False
  with assms obtain n where n: "from_chars_unsigned (2 ^ 63 - 1) b s = (Ec_ok, n, [])"
    and v: "v = int n"
    by (auto simp: parse_integer_i64_def from_chars_i64_def
        split: prod.splits if_splits errc.splits list.splits)
  from from_chars_unsigned_all [OF n] False show ?thesis by (auto simp: v)
qed

lemma hex_not_negative: "is_hex_prefixed s \<Longrightarrow> \<not> (s \<noteq> [] \<and> hd s = CHR ''-'')"
  by (cases s) (auto simp: is_hex_prefixed_def)

lemma u64_no_minus: "parse_integer_u64 s b = Some v \<Longrightarrow> \<not> (s \<noteq> [] \<and> hd s = CHR ''-'')"
  by (cases s)
    (auto simp: parse_integer_u64_def from_chars_u64_def from_chars_unsigned_def Let_def split: if_splits)

lemma literal_val_u64:
  assumes "parse_integer_u64 (literal_body s) (literal_base s) = Some v"
  shows "literal_val s = uint v"
  using parse_integer_u64_Some [OF assms] u64_no_minus [OF assms]
  by (auto simp: literal_val_def Let_def)

lemma literal_val_i64:
  assumes "parse_integer_i64 (literal_body s) (literal_base s) = Some v"
  shows "literal_val s = v" and "- (2 ^ 63) \<le> v" and "v < 2 ^ 63"
  using parse_integer_i64_Some [OF assms] by (simp_all add: literal_val_def Let_def)

lemma parse_integer_number_split:
  "parse_integer_number input =
     (let (s, suffix) = remove_suffix input;
          u = parse_integer_u64 (literal_body s) (literal_base s);
          i = parse_integer_i64 (literal_body s) (literal_base s);
          no_u = Out_of_range ''integer does not fit uint64_t'';
          no_i = Out_of_range ''integer does not fit int64_t''
      in if suffix = Sfx_U \<or> suffix = Sfx_UL \<or> suffix = Sfx_ULL
         then (case u of None \<Rightarrow> Inl no_u | Some v \<Rightarrow> Inr (narrow_suffixed v))
         else if suffix = Sfx_LL \<or> suffix = Sfx_L
         then (case i of None \<Rightarrow> Inl no_i | Some v \<Rightarrow> Inr (Int64 (word_of_int v)))
         else if s \<noteq> [] \<and> hd s = CHR ''-''
         then (case i of None \<Rightarrow> Inl no_i | Some v \<Rightarrow> Inr (narrow_negative v))
         else (case u of None \<Rightarrow> Inl no_u | Some v \<Rightarrow> Inr (narrow_positive v)))"
  using hex_not_negative [of "fst (remove_suffix input)"]
  by (auto simp: parse_integer_number_def literal_body_def literal_base_def Let_def split: prod.splits)

lemma negative_literal_nonpos:
  assumes "s \<noteq> [] \<and> hd s = CHR ''-''"
  shows "literal_val s \<le> 0"
  using assms hex_not_negative [of s] by (auto simp: literal_val_def literal_body_def Let_def)

section \<open>Decimal literals\<close>

lemma ends_with_last: "ends_with s t \<Longrightarrow> t \<noteq> [] \<Longrightarrow> last s = last t"
  unfolding ends_with_def by (metis last_drop le_zero_eq length_0_conv diff_less length_greater_0_conv not_le)

lemma is_dig_letters:
  "\<not> is_dig 10 (CHR ''L'')" "\<not> is_dig 10 (CHR ''l'')" "\<not> is_dig 10 (CHR ''U'')" "\<not> is_dig 10 (CHR ''u'')"
  "\<not> is_dig 10 (CHR ''x'')" "\<not> is_dig 10 (CHR ''X'')" "\<not> is_dig 10 (CHR ''f'')" "\<not> is_dig 10 (CHR ''F'')"
  "\<not> is_dig 10 (CHR ''e'')" "\<not> is_dig 10 (CHR ''E'')" "\<not> is_dig 10 (CHR ''.'')"
  by (simp_all add: is_dig_def char_digit_def)

lemma remove_suffix_digit:
  assumes "is_dig 10 (last s)"
  shows "remove_suffix s = (s, Sfx_None)"
proof -
  have "\<not> ends_with s t" if "t \<noteq> []" "\<not> is_dig 10 (last t)" for t
    using ends_with_last [of s t] that assms by auto
  then show ?thesis by (simp add: remove_suffix_def is_dig_letters)
qed

lemma last_show_nat: "is_dig 10 (last (show_nat n))"
  by (rule show_nat_digits [of _ n]) simp

lemma not_hex_show_nat: "\<not> is_hex_prefixed (show_nat n)"
proof
  assume "is_hex_prefixed (show_nat n)"
  then have "show_nat n ! 1 \<in> set (show_nat n)" and "show_nat n ! 1 = CHR ''x'' \<or> show_nat n ! 1 = CHR ''X''"
    by (auto simp: is_hex_prefixed_def intro: nth_mem)
  then show False using show_nat_digits [of "show_nat n ! 1" n] by (auto simp: is_dig_letters)
qed

lemma hd_show_nat: "hd (show_nat n) \<noteq> CHR ''-''"
  using show_nat_digits [of "hd (show_nat n)" n] by auto

lemma parse_integer_u64_show_nat:
  "parse_integer_u64 (show_nat n) 10 = (if n < 2 ^ 64 then Some (word_of_nat n) else None)"
  by (simp add: parse_integer_u64_def from_chars_u64_def from_chars_unsigned_def)

lemma parse_integer_i64_minus:
  "parse_integer_i64 (CHR ''-'' # show_nat n) 10 = (if n \<le> 2 ^ 63 then Some (- int n) else None)"
  by (simp add: parse_integer_i64_def from_chars_i64_def from_chars_unsigned_def)

lemma parse_number_integral:
  assumes "s \<noteq> []" and "is_dig 10 (last s)" and "\<And>c. c \<in> set s \<Longrightarrow> is_dig 10 c \<or> c = CHR ''-''"
  shows "parse_number P s = parse_integer_number s"
proof -
  have "last s \<noteq> CHR ''f''" "last s \<noteq> CHR ''F''"
    using assms(2) by (auto simp: is_dig_letters)
  moreover have "CHR ''.'' \<notin> set s" "CHR ''e'' \<notin> set s" "CHR ''E'' \<notin> set s"
    using assms(3) [of "CHR ''.''"] assms(3) [of "CHR ''e''"] assms(3) [of "CHR ''E''"]
    by (auto simp: is_dig_letters)
  ultimately show ?thesis using assms(1) by (simp add: parse_number_def)
qed

lemma word_of_nat_le_iff:
  "n < 2 ^ 64 \<Longrightarrow> m < 2 ^ 64 \<Longrightarrow> (word_of_nat n :: u64) \<le> word_of_nat m \<longleftrightarrow> n \<le> m"
  by (simp add: word_le_nat_alt unat_of_nat)

lemma narrow_positive_of_nat:
  assumes "n < 2 ^ 64"
  shows "narrow_positive (word_of_nat n) =
    (if n \<le> 255 then Uint8 (word_of_nat n) else if n \<le> 65535 then Uint16 (word_of_nat n)
     else if n \<le> 4294967295 then Uint32 (word_of_nat n)
     else if n < 2 ^ 63 then Int64 (word_of_nat n) else Uint64 (word_of_nat n))"
  using word_of_nat_le_iff [OF assms, of 255] word_of_nat_le_iff [OF assms, of 65535]
    word_of_nat_le_iff [OF assms, of 4294967295] word_of_nat_le_iff [OF assms, of 9223372036854775807]
    assms
  by (auto simp: narrow_positive_eq unsigned_of_nat take_bit_nat_eq_self)

lemma parse_number_show_nat:
  "parse_number P (show_nat n) =
     (if n < 2 ^ 64 then Inr (narrow_positive (word_of_nat n))
      else Inl (Out_of_range ''integer does not fit uint64_t''))"
proof -
  have "parse_number P (show_nat n) = parse_integer_number (show_nat n)"
    by (rule parse_number_integral) (auto simp: last_show_nat dest: show_nat_digits)
  then show ?thesis
    by (simp add: parse_integer_number_split remove_suffix_digit last_show_nat hd_show_nat
        literal_body_def literal_base_def not_hex_show_nat parse_integer_u64_show_nat)
qed

lemma num_int_narrow_of_nat:
  assumes "n < 2 ^ 64"
  shows "num_int (narrow_positive (word_of_nat n)) = Some (int n)"
proof -
  have "uint (word_of_nat n :: u64) = int n"
    using assms by (simp add: unsigned_of_nat take_bit_nat_eq_self)
  then show ?thesis by (simp add: narrow_positive_val)
qed

section \<open>Properties\<close>

text \<open>Equations with which the simplifier evaluates the parsers on a closed text.\<close>

lemmas text_eval =
  char_digit_def is_dig_def dig_val_def digits_val_def is_space_def lower_def ci_prefix_def
  is_nan_char_def scan_sign_def scan_exp_def scan_mant_def scaled_lit_def scan_hex_def scan_dec_def
  scan_nan_def strto_scan_def from_chars_unsigned_def from_chars_i64_def from_chars_u64_def
  double_lit_def float_lit_def strtod_def strtof_def
  parse_integer_u64_def parse_integer_i64_def parse_float32_def parse_float64_def
  ends_with_def remove_suffix_def is_hex_prefixed_def narrow_suffixed_def narrow_negative_def
  narrow_positive_def parse_integer_number_def parse_number_def Let_def

lemmas rounding_eval =
  double_round_def float_round_def double_enc_def float_enc_def double_inf_bits_def
  float_inf_bits_def round_ratio_def round_shift_def round_sig_def nbits.simps




text \<open>
  A negative decimal literal is stored in the smallest signed type that holds it, and
  below \<open>-2\<^sup>6\<^sup>3\<close> it is refused.
\<close>

theorem parse_number_negative_decimal:
  "parse_number P (CHR ''-'' # show_nat n) =
     (if n \<le> 128 then Inr (Int8 (- word_of_nat n))
      else if n \<le> 32768 then Inr (Int16 (- word_of_nat n))
      else if n \<le> 2147483648 then Inr (Int32 (- word_of_nat n))
      else if n \<le> 2 ^ 63 then Inr (Int64 (- word_of_nat n))
      else Inl (Out_of_range ''integer does not fit int64_t''))"
proof -
  let ?s = "CHR ''-'' # show_nat n"
  have last: "is_dig 10 (last ?s)" by (simp add: last_show_nat)
  have not_hex: "\<not> is_hex_prefixed ?s" using hex_not_negative [of ?s] by auto
  have "parse_number P ?s = parse_integer_number ?s"
    using last by (intro parse_number_integral) (auto dest: show_nat_digits)
  also have "\<dots> = (if n \<le> 2 ^ 63 then Inr (narrow_negative (- int n))
      else Inl (Out_of_range ''integer does not fit int64_t''))"
    by (simp add: parse_integer_number_split remove_suffix_digit last_show_nat
        literal_body_def literal_base_def not_hex parse_integer_i64_minus)
  finally show ?thesis by (simp add: narrow_negative_def)
qed

text \<open>
  The tests on the last character and on the letter e come before the test for a
  hexadecimal prefix, so a hexadecimal literal is taken apart by them: \<open>0xff\<close> is the
  \<open>float\<close> 15, \<open>0xf\<close> is refused as a float, \<open>0xe\<close> is the \<open>double\<close> 14, and a lone
  \<open>f\<close> is accepted as the \<open>float\<close> zero. With an unsigned suffix the same digits are read
  as the integer.
\<close>

theorem parse_number_hex_literals:
  "parse_number P ''0xff'' = Inr (Float 0x41700000)
   \<and> parse_number P ''0xf'' = Inl (Invalid_argument ''invalid float'')
   \<and> parse_number P ''0xe'' = Inr (Double (double_of_int 14))
   \<and> parse_number P ''f'' = Inr (Float 0)
   \<and> parse_number P ''0xffu'' = Inr (Uint8 255)"
proof (intro conjI)
  show "parse_number P ''0xff'' = Inr (Float 0x41700000)" by (simp add: text_eval rounding_eval)
  show "parse_number P ''0xf'' = Inl (Invalid_argument ''invalid float'')" by (simp add: text_eval)
  show "parse_number P ''0xe'' = Inr (Double (double_of_int 14))" by (simp add: text_eval double_of_int_def)
  show "parse_number P ''f'' = Inr (Float 0)" by (simp add: text_eval)
  show "parse_number P ''0xffu'' = Inr (Uint8 255)" by (simp add: text_eval)
qed

end
