(* ===== verification/Server_Handlers.thy ===== *)
theory Server_Handlers
  imports Client_Sockets Number_Parser
begin

text \<open>
  The request handlers of \<open>src/server/Server.cpp\<close>, the dispatcher over the opcode, and the
  counter of \<open>src/server/Universe.h\<close>. The server is one record; the chat table and the
  counter, singletons of the program, are members of it, and \<open>hist\<close> collects the calls to
  the outside. A handler gets the index of the client it serves, where the code passes a
  pointer to the vector element. Text that only goes to the log or the console is left out.
\<close>

section \<open>State\<close>

datatype eServerState = NOT_STARTED | STARTED | CLOSING | CLOSED

text \<open>\<open>m_ctx\<close>: left uninitialised by the constructor; freed but not reset on errors.\<close>

datatype ctx_state = Ctx_uninit | Ctx_null | Ctx_live | Ctx_freed

record server =
  m_StartTime :: int
  m_UniqueCLientCounter :: u64
  buffer :: bytes
  m_MasterSocket :: int
  m_ClientSocket :: "ClientSocket list"
  m_ServerState :: eServerState
  m_ctx :: ctx_state
  m_SendHelloMsg :: bool
  m_Readfds :: "int set"
  rooms :: chat
  m_Counter :: u64
  hist :: history

definition BUFFER_SIZE :: nat where
  "BUFFER_SIZE = 4096"

section \<open>Universe\<close>

definition getCounter :: "u64 \<Rightarrow> u64" where
  "getCounter c = c"

definition incrementCounter :: "u64 \<Rightarrow> u64" where
  "incrementCounter c = c + 1"

section \<open>Sending\<close>

definition SendSSLPacketToClientSocket :: "env \<Rightarrow> ClientSocket \<Rightarrow> bytes \<Rightarrow> server \<Rightarrow> server" where
  "SendSSLPacketToClientSocket E client packet s =
     (let sent = SSL_write_ret E (hist s) (ssl client) packet
      in s\<lparr>hist := hist s @ [Ev_SSL_write (ssl client) packet sent]\<rparr>)"

text \<open>The message is appended as a C string, so it ends at its first NUL byte.\<close>

definition SendMsgToSocket :: "env \<Rightarrow> ClientSocket \<Rightarrow> bytes \<Rightarrow> server \<Rightarrow> server" where
  "SendMsgToSocket E client msg s =
     SendSSLPacketToClientSocket E client (packet_header (host E) SMSG_MESSAGE @ c_str msg) s"

definition m_HelloMsg :: bytes where
  "m_HelloMsg = ascii ''Server v1.0 on duty! waiting for commands.''"

text \<open>
  The write loop of the greeting: what is left is written again until nothing is left or a
  write fails. A count larger than what was offered would wrap the remaining size.
\<close>

function motd_loop :: "env \<Rightarrow> ssl_ptr option \<Rightarrow> bytes \<Rightarrow> history \<Rightarrow> fault + history" where
  "motd_loop E p data h =
     (if data = [] then Inr h
      else
        (let written = SSL_write_ret E h p data;
             h1 = h @ [Ev_SSL_write p data written]
         in if written \<le> 0 then Inr h1
            else if length data < nat written then Inl Out_of_bounds
            else motd_loop E p (drop (nat written) data) h1))"
  by pat_completeness auto
termination
  by (relation "measure (\<lambda>(E, p, data, h). length data)") auto

declare motd_loop.simps [simp del]

definition SendMOTD :: "env \<Rightarrow> ClientSocket \<Rightarrow> server \<Rightarrow> fault + server" where
  "SendMOTD E client s =
     (case motd_loop E (ssl client) (packet_header (host E) SMSG_MOTD @ m_HelloMsg) (hist s) of
        Inl f \<Rightarrow> Inl f
      | Inr h \<Rightarrow> Inr (s\<lparr>hist := h\<rparr>))"

section \<open>Handlers\<close>

definition CallHandlerEcho :: "env \<Rightarrow> nat \<Rightarrow> bytes \<Rightarrow> server \<Rightarrow> server" where
  "CallHandlerEcho E i reply s =
     SendSSLPacketToClientSocket E (m_ClientSocket s ! i)
       (packet_header (host E) SMSG_ECHO_REQUEST @ reply) s"

function add_loop :: "env \<Rightarrow> bytes \<Rightarrow> nat \<Rightarrow> nat \<Rightarrow> u64 \<Rightarrow> fault + u64" where
  "add_loop E buf payloadSize offset acc =
     (if offset < payloadSize then
        (case read_at buf offset 1 of
           Inl f \<Rightarrow> Inl f
         | Inr tb \<Rightarrow>
             (case read_number (host E) buf (offset + 1) (hd tb) of
                Inl f \<Rightarrow> Inl f
              | Inr (num, offset') \<Rightarrow>
                  add_loop E buf payloadSize offset'
                    (double_add (fpe E) acc (number_to_double (fpe E) num))))
      else Inr acc)"
  by pat_completeness auto
termination
  by (relation "measure (\<lambda>(E, buf, n, off, t). n - off)") (auto dest: read_number_advances)

declare add_loop.simps [simp del]

definition CallHandlerAdd :: "env \<Rightarrow> nat \<Rightarrow> nat \<Rightarrow> nat \<Rightarrow> server \<Rightarrow> fault + server" where
  "CallHandlerAdd E i offset payloadSize s =
     (case add_loop E (buffer s) payloadSize offset 0 of
        Inl f \<Rightarrow> Inl f
      | Inr acc \<Rightarrow>
          Inr (SendSSLPacketToClientSocket E (m_ClientSocket s ! i)
                 (packet_header (host E) SMSG_ADDITION_REQUEST @ mem_bytes (host E) acc) s))"

fun broadcast_loop :: "env \<Rightarrow> bytes \<Rightarrow> ClientSocket list \<Rightarrow> server \<Rightarrow> server" where
  "broadcast_loop E packet [] s = s"
| "broadcast_loop E packet (client # cs) s =
     broadcast_loop E packet cs
       (if \<not> sslEnabled client then s else SendSSLPacketToClientSocket E client packet s)"

definition CallHandlerBroadcast :: "env \<Rightarrow> bytes \<Rightarrow> server \<Rightarrow> server" where
  "CallHandlerBroadcast E stream s =
     broadcast_loop E (packet_header (host E) SMSG_BROADCAST @ stream) (m_ClientSocket s) s"

definition client_entry :: "endian \<Rightarrow> u64 \<Rightarrow> ClientSocket \<Rightarrow> bytes" where
  "client_entry e self c =
     (let username = clientUsername c @ (if clientID c = self then ascii '' (you)'' else [])
      in mem_bytes e (to_net e (clientID c)) @
         mem_bytes e (to_net e (word_of_nat (length username) :: u16)) @ username)"

definition CallHandlerGetClientList :: "env \<Rightarrow> nat \<Rightarrow> server \<Rightarrow> server" where
  "CallHandlerGetClientList E i s =
     (let client = m_ClientSocket s ! i;
          error = (if 0 < length (m_ClientSocket s) then ERR_OK else ERR_NO_CLIENT_FOUND);
          clientList = concat (map (client_entry (host E) (clientID client)) (m_ClientSocket s));
          packetSize = 2 + 1 + length clientList;
          packet = packet_header (host E) SMSG_CLIENT_LIST @
            (if packetSize \<le> 4096 then [err_code error] @ clientList
             else [err_code ERR_TOO_MUCH_CLIENTS])
      in SendSSLPacketToClientSocket E client packet s)"

text \<open>
  The recipient of a private message: the error when there is none (the pointer stays
  null), or the first client of the vector with that number.
\<close>

definition msg_target :: "u64 \<Rightarrow> ClientSocket \<Rightarrow> ClientSocket list \<Rightarrow> eChatErr + ClientSocket" where
  "msg_target cid client cs =
     (if cid = clientID client then Inl ERR_MSG_TO_SELF
      else case List.find (\<lambda>c. clientID c = cid) cs of
             None \<Rightarrow> Inl ERR_NO_CLIENT_FOUND
           | Some c \<Rightarrow> Inr c)"

definition send_msg_status :: "env \<Rightarrow> ClientSocket \<Rightarrow> eChatErr \<Rightarrow> server \<Rightarrow> server" where
  "send_msg_status E client error s =
     SendSSLPacketToClientSocket E client
       (packet_header (host E) SMSG_PRIVATE_MSG_ERR @ [err_code error]) s"

definition CallHandlerMsgToClient :: "env \<Rightarrow> nat \<Rightarrow> nat \<Rightarrow> nat \<Rightarrow> server \<Rightarrow> fault + server" where
  "CallHandlerMsgToClient E i offset payloadSize s =
     (let client = m_ClientSocket s ! i
      in case read_at (buffer s) offset 8 of
           Inl f \<Rightarrow> Inl f
         | Inr idb \<Rightarrow>
             (case msg_target (of_mem (host E) idb) client (m_ClientSocket s) of
                Inl error \<Rightarrow> Inr (send_msg_status E client error s)
              | Inr foundClient \<Rightarrow>
                  (case read_at (buffer s) (offset + 8) payloadSize of
                     Inl f \<Rightarrow> Inl f
                   | Inr message \<Rightarrow>
                       (if message = [] then Inr (send_msg_status E client ERR_EMPTY_MESSAGE s)
                        else Inr (SendSSLPacketToClientSocket E foundClient
                               (packet_header (host E) SMSG_PRIVATE_MESSAGE @
                                mem_bytes (host E) (clientID client) @ message)
                               (send_msg_status E client ERR_OK s))))))"

definition CallHandlerPong :: "env \<Rightarrow> nat \<Rightarrow> server \<Rightarrow> server" where
  "CallHandlerPong E i s =
     SendSSLPacketToClientSocket E (m_ClientSocket s ! i) (packet_header (host E) SMSG_PONG) s"

definition uptime_text :: "int \<Rightarrow> string" where
  "uptime_text elapsed_ns =
     (let seconds = c_div elapsed_ns 1000000000;
          hours = c_div seconds 3600;
          seconds = c_mod seconds 3600;
          minutes = c_div seconds 60;
          seconds = c_mod seconds 60
      in ''Uptime: '' @ show_int hours @ ''h '' @ show_int minutes @ ''m '' @ show_int seconds @ ''s'')"

definition CallHandlerUptime :: "env \<Rightarrow> nat \<Rightarrow> server \<Rightarrow> server" where
  "CallHandlerUptime E i s =
     (let now = now_ns E (hist s); s1 = s\<lparr>hist := hist s @ [Ev_now now]\<rparr>
      in SendSSLPacketToClientSocket E (m_ClientSocket s1 ! i)
           (packet_header (host E) SMSG_UPTIME @ ascii (uptime_text (now - m_StartTime s1))) s1)"

definition CallHandlerGetCounter :: "env \<Rightarrow> nat \<Rightarrow> server \<Rightarrow> server" where
  "CallHandlerGetCounter E i s =
     SendSSLPacketToClientSocket E (m_ClientSocket s ! i)
       (packet_header (host E) SMSG_COUNTER @ mem_bytes (host E) (getCounter (m_Counter s))) s"

definition CallHandlerGetChatRooms :: "env \<Rightarrow> nat \<Rightarrow> server \<Rightarrow> server" where
  "CallHandlerGetChatRooms E i s =
     SendMsgToSocket E (m_ClientSocket s ! i)
       (getChatRoomsStr (map_order E (hist s) (rooms s)) (rooms s)) s"

definition CallHandlerGetRoominfo :: "env \<Rightarrow> nat \<Rightarrow> server \<Rightarrow> fault + server" where
  "CallHandlerGetRoominfo E i s =
     (let client = m_ClientSocket s ! i; roomID = joinedChatRoomID client
      in if \<not> chatRoomJoined client then Inr (SendMsgToSocket E client (ascii ''No joined room'') s)
         else if \<not> checkRoomID roomID (rooms s)
           then Inr (SendMsgToSocket E client (ascii ''Invalid room'') s)
         else (case getRoomName roomID (rooms s) of
                 Inl f \<Rightarrow> Inl f
               | Inr nm \<Rightarrow> Inr (SendMsgToSocket E client (ascii ''Joined: '' @ nm) s)))"

text \<open>The error code that a join request ends with, and the table it leaves behind.\<close>

definition join_check :: "u8 \<Rightarrow> bytes \<Rightarrow> chat \<Rightarrow> fault + eChatErr \<times> chat" where
  "join_check roomID hash m =
     (let error = (if \<not> checkRoomID roomID m then ERR_INVALID_ROOM else ERR_OK);
          (prot, m1) = isRoomProtected roomID m
      in if prot then
           (case checkPasswordHash roomID hash m1 of
              Inl f \<Rightarrow> Inl f
            | Inr (valid, m2) \<Rightarrow> Inr (if \<not> valid then ERR_INVALID_ROOM_PASSWORD else error, m2))
         else Inr (error, m1))"

text \<open>The state change and the reply that follow the check.\<close>

definition join_reply :: "env \<Rightarrow> nat \<Rightarrow> u8 \<Rightarrow> eChatErr \<Rightarrow> server \<Rightarrow> server" where
  "join_reply E i roomID error s =
     (if error = ERR_OK then
        (let client = (m_ClientSocket s ! i)\<lparr>joinedChatRoomID := roomID, chatRoomJoined := True\<rparr>
         in SendSSLPacketToClientSocket E client
              (packet_header (host E) SMSG_JOIN_CHAT_ROOM_OK @ [roomID])
              (s\<lparr>m_ClientSocket := (m_ClientSocket s)[i := client]\<rparr>))
      else
        SendSSLPacketToClientSocket E (m_ClientSocket s ! i)
          (packet_header (host E) SMSG_JOIN_CHAT_ROOM_ERR @ [err_code error]) s)"

definition CallHandlerJoinRoom :: "env \<Rightarrow> nat \<Rightarrow> nat \<Rightarrow> nat \<Rightarrow> server \<Rightarrow> fault + server" where
  "CallHandlerJoinRoom E i offset payloadSize s =
     (case read_at (buffer s) offset 1 of
        Inl f \<Rightarrow> Inl f
      | Inr rb \<Rightarrow>
          (case read_at (buffer s) (offset + 1) SHA256_DIGEST_LENGTH of
             Inl f \<Rightarrow> Inl f
           | Inr hash \<Rightarrow>
               (let roomID = hd rb
                in case join_check roomID hash (rooms s) of
                     Inl f \<Rightarrow> Inl f
                   | Inr (error, m) \<Rightarrow> Inr (join_reply E i roomID error (s\<lparr>rooms := m\<rparr>)))))"

fun say_loop :: "env \<Rightarrow> bytes \<Rightarrow> u8 \<Rightarrow> ClientSocket list \<Rightarrow> server \<Rightarrow> server" where
  "say_loop E packet roomID [] s = s"
| "say_loop E packet roomID (c # cs) s =
     say_loop E packet roomID cs
       (if \<not> sslEnabled c then s
        else if joinedChatRoomID c \<noteq> roomID \<or> \<not> chatRoomJoined c then s
        else SendSSLPacketToClientSocket E c packet s)"

definition CallHandlerSay :: "env \<Rightarrow> nat \<Rightarrow> bytes \<Rightarrow> server \<Rightarrow> server" where
  "CallHandlerSay E i message s =
     (let client = m_ClientSocket s ! i; roomID = joinedChatRoomID client
      in if checkRoomID roomID (rooms s) \<and> chatRoomJoined client then
           (let s1 = SendSSLPacketToClientSocket E client (packet_header (host E) SMSG_SAY_OK) s
            in say_loop E (packet_header (host E) SMSG_SAY @ message) roomID (m_ClientSocket s1) s1)
         else
           (let error = (if \<not> chatRoomJoined client then ERR_NO_ROOM_JOINED else ERR_INVALID_ROOM)
            in SendSSLPacketToClientSocket E client
                 (packet_header (host E) SMSG_SAY_ERR @ [err_code error]) s))"

section \<open>Dispatch\<close>

text \<open>The bytes after the opcode, as the string constructor takes them from the buffer.\<close>

definition with_payload :: "nat \<Rightarrow> server \<Rightarrow> (bytes \<Rightarrow> server) \<Rightarrow> fault + server" where
  "with_payload payloadSize s f =
     (case read_at (buffer s) 2 (payloadSize - 2) of Inl x \<Rightarrow> Inl x | Inr bs \<Rightarrow> Inr (f bs))"

definition CallHandler :: "env \<Rightarrow> nat \<Rightarrow> nat \<Rightarrow> server \<Rightarrow> fault + server" where
  "CallHandler E i payloadSize s =
     (let oc = header_opcode (host E) (buffer s)
      in if oc = opcode CMSG_ECHO_REQUEST then
           with_payload payloadSize s (\<lambda>bs. CallHandlerEcho E i bs s)
         else if oc = opcode CMSG_ADDITION_REQUEST then
           (if 2 + 1 * 2 + 1 * 2 \<le> payloadSize then CallHandlerAdd E i 2 payloadSize s else Inr s)
         else if oc = opcode CMSG_BROADCAST_MESSAGE then
           with_payload payloadSize s (\<lambda>bs. CallHandlerBroadcast E bs s)
         else if oc = opcode CMSG_GET_CLIENT_LIST then Inr (CallHandlerGetClientList E i s)
         else if oc = opcode CMSG_SEND_MSG_TO_CLIENT then
           (if 2 + 8 \<le> payloadSize then CallHandlerMsgToClient E i 2 payloadSize s else Inr s)
         else if oc = opcode CMSG_PING then Inr (CallHandlerPong E i s)
         else if oc = opcode CMSG_UPTIME then Inr (CallHandlerUptime E i s)
         else if oc = opcode CMSG_INCREMENT_COUNTER then
           Inr (s\<lparr>m_Counter := incrementCounter (m_Counter s)\<rparr>)
         else if oc = opcode CMSG_GET_COUNTER then Inr (CallHandlerGetCounter E i s)
         else if oc = opcode CMSG_GET_CHAT_ROOMS then Inr (CallHandlerGetChatRooms E i s)
         else if oc = opcode CMSG_GET_ROOM_INFO then CallHandlerGetRoominfo E i s
         else if oc = opcode CMSG_JOIN_ROOM then
           (if 2 + 1 + SHA256_DIGEST_LENGTH = payloadSize
            then CallHandlerJoinRoom E i 2 payloadSize s else Inr s)
         else if oc = opcode CMSG_SAY then
           with_payload payloadSize s (\<lambda>bs. CallHandlerSay E i bs s)
         else Inr (SendMsgToSocket E (m_ClientSocket s ! i) (ascii ''Unknown or unhandled opcode.'') s))"

section \<open>What was sent\<close>

text \<open>The packets handed to the TLS layer, with the connection each was written to.\<close>

fun sent_of :: "event \<Rightarrow> (ssl_ptr option \<times> bytes) list" where
  "sent_of (Ev_SSL_write p bs r) = [(p, bs)]"
| "sent_of e = []"

definition sent :: "history \<Rightarrow> (ssl_ptr option \<times> bytes) list" where
  "sent h = concat (map sent_of h)"

lemma sent_simps [simp]:
  "sent [] = []" "sent (e # h) = sent_of e @ sent h" "sent (a @ b) = sent a @ sent b"
  by (simp_all add: sent_def)

lemma send_eq:
  "SendSSLPacketToClientSocket E c p s =
     s\<lparr>hist := hist s @ [Ev_SSL_write (ssl c) p (SSL_write_ret E (hist s) (ssl c) p)]\<rparr>"
  by (simp add: SendSSLPacketToClientSocket_def Let_def)

lemma send_fields [simp]:
  "m_StartTime (SendSSLPacketToClientSocket E c p s) = m_StartTime s"
  "m_UniqueCLientCounter (SendSSLPacketToClientSocket E c p s) = m_UniqueCLientCounter s"
  "buffer (SendSSLPacketToClientSocket E c p s) = buffer s"
  "m_MasterSocket (SendSSLPacketToClientSocket E c p s) = m_MasterSocket s"
  "m_ClientSocket (SendSSLPacketToClientSocket E c p s) = m_ClientSocket s"
  "m_ServerState (SendSSLPacketToClientSocket E c p s) = m_ServerState s"
  "m_ctx (SendSSLPacketToClientSocket E c p s) = m_ctx s"
  "m_SendHelloMsg (SendSSLPacketToClientSocket E c p s) = m_SendHelloMsg s"
  "m_Readfds (SendSSLPacketToClientSocket E c p s) = m_Readfds s"
  "rooms (SendSSLPacketToClientSocket E c p s) = rooms s"
  "m_Counter (SendSSLPacketToClientSocket E c p s) = m_Counter s"
  by (simp_all add: send_eq)

lemma sent_send [simp]:
  "sent (hist (SendSSLPacketToClientSocket E c p s)) = sent (hist s) @ [(ssl c, p)]"
  by (simp add: send_eq)

text \<open>
  \<open>only_sends s t\<close>: from \<open>s\<close> to \<open>t\<close> nothing happened but calls that write to a
  connection or read the clock.
\<close>

fun talk_event :: "event \<Rightarrow> bool" where
  "talk_event (Ev_SSL_write p bs r) = True"
| "talk_event (Ev_now t) = True"
| "talk_event e = False"

definition only_sends :: "server \<Rightarrow> server \<Rightarrow> bool" where
  "only_sends s t \<longleftrightarrow> (\<exists>tr. list_all talk_event tr \<and> t = s\<lparr>hist := hist s @ tr\<rparr>)"

lemma only_sends_refl [simp, intro]: "only_sends s s"
  unfolding only_sends_def by (rule exI [of _ "[]"]) simp

lemma only_sends_trans [trans]:
  assumes "only_sends s t" and "only_sends t u"
  shows "only_sends s u"
proof -
  from assms obtain a b where "list_all talk_event a" "t = s\<lparr>hist := hist s @ a\<rparr>"
    "list_all talk_event b" "u = t\<lparr>hist := hist t @ b\<rparr>"
    unfolding only_sends_def by blast
  then have "list_all talk_event (a @ b) \<and> u = s\<lparr>hist := hist s @ (a @ b)\<rparr>" by simp
  then show ?thesis unfolding only_sends_def by blast
qed

lemma only_sends_send [simp, intro]: "only_sends s (SendSSLPacketToClientSocket E c p s)"
  unfolding only_sends_def send_eq
  by (rule exI [of _ "[Ev_SSL_write (ssl c) p (SSL_write_ret E (hist s) (ssl c) p)]"]) simp

lemma only_sends_fields:
  assumes "only_sends s t"
  shows "m_ClientSocket t = m_ClientSocket s" "rooms t = rooms s" "buffer t = buffer s"
    "m_Counter t = m_Counter s" "m_ServerState t = m_ServerState s" "m_StartTime t = m_StartTime s"
    "m_UniqueCLientCounter t = m_UniqueCLientCounter s" "m_MasterSocket t = m_MasterSocket s"
    "m_Readfds t = m_Readfds s" "m_ctx t = m_ctx s" "m_SendHelloMsg t = m_SendHelloMsg s"
  using assms by (auto simp: only_sends_def)

lemma only_sends_msg [simp, intro]: "only_sends s (SendMsgToSocket E c m s)"
  by (simp add: SendMsgToSocket_def)

lemma sent_msg [simp]:
  "sent (hist (SendMsgToSocket E c m s)) =
     sent (hist s) @ [(ssl c, packet_header (host E) SMSG_MESSAGE @ c_str m)]"
  by (simp add: SendMsgToSocket_def)

lemma broadcast_loop_sends:
  "only_sends s (broadcast_loop E p cs s)
   \<and> sent (hist (broadcast_loop E p cs s)) = sent (hist s) @ map (\<lambda>c. (ssl c, p)) (filter sslEnabled cs)"
proof (induction cs arbitrary: s)
  case (Cons c cs)
  show ?case
    using Cons.IH [of s] Cons.IH [of "SendSSLPacketToClientSocket E c p s"]
    by (auto intro: only_sends_trans)
qed simp

lemma say_loop_sends:
  "only_sends s (say_loop E p r cs s)
   \<and> sent (hist (say_loop E p r cs s)) = sent (hist s) @
       map (\<lambda>c. (ssl c, p)) (filter (\<lambda>c. sslEnabled c \<and> joinedChatRoomID c = r \<and> chatRoomJoined c) cs)"
proof (induction cs arbitrary: s)
  case (Cons c cs)
  show ?case
    using Cons.IH [of s] Cons.IH [of "SendSSLPacketToClientSocket E c p s"]
    by (auto intro: only_sends_trans)
qed simp

section \<open>What a handler may change\<close>

text \<open>
  The frame of a handler that serves client \<open>i\<close>: apart from what it sends, it may count
  up, add rooms to the table, and record for client \<open>i\<close> a room that is in the table.
\<close>

definition handler_frame :: "nat \<Rightarrow> server \<Rightarrow> server \<Rightarrow> bool" where
  "handler_frame i s t \<longleftrightarrow>
     (\<exists>tr m ctr c. list_all talk_event tr \<and> rooms s \<subseteq>\<^sub>m m
        \<and> (c = m_ClientSocket s ! i \<or>
           (\<exists>r. c = (m_ClientSocket s ! i)\<lparr>joinedChatRoomID := r, chatRoomJoined := True\<rparr> \<and> checkRoomID r m))
        \<and> t = s\<lparr>hist := hist s @ tr, rooms := m, m_Counter := ctr,
                m_ClientSocket := (m_ClientSocket s)[i := c]\<rparr>)"

lemma only_sends_frame:
  assumes "only_sends s t"
  shows "handler_frame i s t"
proof -
  from assms obtain tr where tr: "list_all talk_event tr" and t: "t = s\<lparr>hist := hist s @ tr\<rparr>"
    by (auto simp: only_sends_def)
  have "t = s\<lparr>hist := hist s @ tr, rooms := rooms s, m_Counter := m_Counter s,
      m_ClientSocket := (m_ClientSocket s)[i := m_ClientSocket s ! i]\<rparr>"
    by (simp add: t)
  with tr show ?thesis unfolding handler_frame_def
    by (intro exI [of _ tr] exI [of _ "rooms s"] exI [of _ "m_Counter s"]
        exI [of _ "m_ClientSocket s ! i"]) simp
qed

lemma handler_frame_fields:
  assumes "handler_frame i s t"
  shows "m_StartTime t = m_StartTime s" "m_UniqueCLientCounter t = m_UniqueCLientCounter s"
    "buffer t = buffer s" "m_MasterSocket t = m_MasterSocket s" "m_ServerState t = m_ServerState s"
    "m_ctx t = m_ctx s" "m_SendHelloMsg t = m_SendHelloMsg s" "m_Readfds t = m_Readfds s"
    "length (m_ClientSocket t) = length (m_ClientSocket s)"
    "rooms s \<subseteq>\<^sub>m rooms t"
    "map clientID (m_ClientSocket t) = map clientID (m_ClientSocket s)"
    "map ssl (m_ClientSocket t) = map ssl (m_ClientSocket s)"
    "map socket (m_ClientSocket t) = map socket (m_ClientSocket s)"
  using assms
  by (auto simp: handler_frame_def map_update)

lemma only_sends_echo: "only_sends s (CallHandlerEcho E i bs s)"
  by (simp add: CallHandlerEcho_def)

lemma only_sends_add: "CallHandlerAdd E i off n s = Inr t \<Longrightarrow> only_sends s t"
  by (auto simp: CallHandlerAdd_def split: sum.splits)

lemma only_sends_broadcast: "only_sends s (CallHandlerBroadcast E bs s)"
  by (simp add: CallHandlerBroadcast_def broadcast_loop_sends)

lemma only_sends_client_list: "only_sends s (CallHandlerGetClientList E i s)"
  by (simp add: CallHandlerGetClientList_def Let_def)

lemma only_sends_msg_to_client: "CallHandlerMsgToClient E i off n s = Inr t \<Longrightarrow> only_sends s t"
  unfolding CallHandlerMsgToClient_def Let_def send_msg_status_def
  by (auto split: sum.splits if_splits intro: only_sends_trans [OF only_sends_send only_sends_send])

lemma only_sends_uptime: "only_sends s (CallHandlerUptime E i s)"
proof -
  have "only_sends s (s\<lparr>hist := hist s @ [Ev_now (now_ns E (hist s))]\<rparr>)"
    unfolding only_sends_def by (rule exI [of _ "[Ev_now (now_ns E (hist s))]"]) simp
  then show ?thesis unfolding CallHandlerUptime_def Let_def
    by (rule only_sends_trans) (rule only_sends_send)
qed

lemma only_sends_room_info: "CallHandlerGetRoominfo E i s = Inr t \<Longrightarrow> only_sends s t"
  by (auto simp: CallHandlerGetRoominfo_def Let_def split: sum.splits if_splits)

lemma only_sends_say: "only_sends s (CallHandlerSay E i bs s)"
  unfolding CallHandlerSay_def Let_def
  by (simp add: only_sends_trans [OF only_sends_send say_loop_sends [THEN conjunct1]] split: if_split)

lemma join_check_rooms:
  assumes "join_check r hash m = Inr (err, m')"
  shows "m \<subseteq>\<^sub>m m'" and "err = ERR_OK \<Longrightarrow> checkRoomID r m'"
proof -
  have "m \<subseteq>\<^sub>m snd (subscript r m)"
    by (auto simp: subscript_def map_le_def split: option.split)
  moreover have "m' = snd (subscript r m)"
  proof (cases "m r")
    case None
    with assms show ?thesis
      by (auto simp: join_check_def isRoomProtected_unknown subscript_unknown)
  next
    case (Some room)
    with assms show ?thesis
      by (auto simp: join_check_def isRoomProtected_known subscript_known
          dest: checkPasswordHash_state split: if_splits sum.splits)
  qed
  ultimately show "m \<subseteq>\<^sub>m m'" and "err = ERR_OK \<Longrightarrow> checkRoomID r m'"
    by (auto simp: subscript_def checkRoomID_def split: option.split)
qed

lemma join_reply_frame:
  assumes "rooms s \<subseteq>\<^sub>m m" and "err = ERR_OK \<Longrightarrow> checkRoomID r m"
  shows "handler_frame i s (join_reply E i r err (s\<lparr>rooms := m\<rparr>))"
proof (cases "err = ERR_OK")
  case True
  let ?c = "(m_ClientSocket s ! i)\<lparr>joinedChatRoomID := r, chatRoomJoined := True\<rparr>"
  let ?p = "packet_header (host E) SMSG_JOIN_CHAT_ROOM_OK @ [r]"
  from True assms show ?thesis
    unfolding handler_frame_def
    by (intro exI [of _ "[Ev_SSL_write (ssl ?c) ?p (SSL_write_ret E (hist s) (ssl ?c) ?p)]"]
        exI [of _ m] exI [of _ "m_Counter s"] exI [of _ ?c])
      (auto simp: join_reply_def send_eq Let_def)
next
  case False
  let ?c = "m_ClientSocket s ! i"
  let ?p = "packet_header (host E) SMSG_JOIN_CHAT_ROOM_ERR @ [err_code err]"
  from False assms show ?thesis
    unfolding handler_frame_def
    by (intro exI [of _ "[Ev_SSL_write (ssl ?c) ?p (SSL_write_ret E (hist s) (ssl ?c) ?p)]"]
        exI [of _ m] exI [of _ "m_Counter s"] exI [of _ ?c])
      (auto simp: join_reply_def send_eq Let_def)
qed

lemma join_room_frame:
  assumes "CallHandlerJoinRoom E i off n s = Inr t"
  shows "handler_frame i s t"
proof -
  from assms obtain r hash err m where jc: "join_check r hash (rooms s) = Inr (err, m)"
    and t: "t = join_reply E i r err (s\<lparr>rooms := m\<rparr>)"
    by (auto simp: CallHandlerJoinRoom_def Let_def split: sum.splits)
  from join_check_rooms [OF jc] show ?thesis unfolding t by (rule join_reply_frame)
qed

lemma counter_frame: "handler_frame i s (s\<lparr>m_Counter := c\<rparr>)"
  unfolding handler_frame_def
  by (intro exI [of _ "[]"] exI [of _ "rooms s"] exI [of _ c] exI [of _ "m_ClientSocket s ! i"]) simp

lemmas handlers_only_send =
  only_sends_echo only_sends_add only_sends_broadcast only_sends_client_list
  only_sends_msg_to_client only_sends_uptime only_sends_room_info only_sends_say

lemma CallHandler_frame:
  assumes "CallHandler E i n s = Inr t"
  shows "handler_frame i s t"
  using assms unfolding CallHandler_def Let_def with_payload_def
  by (auto split: if_splits sum.splits
      simp: CallHandlerPong_def CallHandlerGetCounter_def CallHandlerGetChatRooms_def
      intro: only_sends_frame handlers_only_send join_room_frame counter_frame)

end
