(* ===== verification/Server_Requests.thy ===== *)
theory Server_Requests
  imports Server_Handlers
begin

text \<open>
  Correctness of the request handlers: the invariant that every handler keeps, and for each
  request what is sent to whom, what changes, and on which inputs the handler runs into a
  fault. A request is stated by the bytes received at the front of the server's buffer;
  what lies behind them is left over from earlier requests.
\<close>

section \<open>The invariant\<close>

definition client_ok :: "chat \<Rightarrow> ClientSocket \<Rightarrow> bool" where
  "client_ok m c \<longleftrightarrow> sslEnabled c \<and> ssl c \<noteq> None \<and> 0 \<le> socket c
     \<and> clientUsername c = ascii ''<unk>''
     \<and> (chatRoomJoined c \<longrightarrow> checkRoomID (joinedChatRoomID c) m)"

definition ids_ok :: "u64 \<Rightarrow> ClientSocket list \<Rightarrow> bool" where
  "ids_ok next cs \<longleftrightarrow> sorted_wrt (<) (map clientID cs) \<and> (\<forall>x \<in> set (map clientID cs). x < next)"

definition server_inv :: "server \<Rightarrow> bool" where
  "server_inv s \<longleftrightarrow> length (buffer s) = BUFFER_SIZE
     \<and> list_all (client_ok (rooms s)) (m_ClientSocket s)
     \<and> ids_ok (m_UniqueCLientCounter s) (m_ClientSocket s)"

lemma client_ok_mono: "client_ok m c \<Longrightarrow> m \<subseteq>\<^sub>m m' \<Longrightarrow> client_ok m' c"
  by (auto simp: client_ok_def checkRoomID_def map_le_def dom_def)

lemma client_ok_join:
  "client_ok m c \<Longrightarrow> checkRoomID r m \<Longrightarrow> client_ok m (c\<lparr>joinedChatRoomID := r, chatRoomJoined := True\<rparr>)"
  by (simp add: client_ok_def)

lemma list_all_update: "list_all P xs \<Longrightarrow> P x \<Longrightarrow> list_all P (xs[i := x])"
  using set_update_subset_insert [of xs i x] by (auto simp: list_all_iff)

lemma handler_frame_inv:
  assumes "handler_frame i s t" and "server_inv s" and "i < length (m_ClientSocket s)"
  shows "server_inv t"
proof -
  from assms(1) obtain tr m ctr c where le: "rooms s \<subseteq>\<^sub>m m"
    and c: "c = m_ClientSocket s ! i \<or>
      (\<exists>r. c = (m_ClientSocket s ! i)\<lparr>joinedChatRoomID := r, chatRoomJoined := True\<rparr> \<and> checkRoomID r m)"
    and t: "t = s\<lparr>hist := hist s @ tr, rooms := m, m_Counter := ctr,
      m_ClientSocket := (m_ClientSocket s)[i := c]\<rparr>"
    unfolding handler_frame_def by blast
  from assms(2) le have all: "list_all (client_ok m) (m_ClientSocket s)"
    by (auto simp: server_inv_def list_all_iff intro: client_ok_mono)
  with assms(3) have "client_ok m (m_ClientSocket s ! i)" by (simp add: list_all_length)
  with c have "client_ok m c" by (auto intro: client_ok_join)
  with all have "list_all (client_ok m) ((m_ClientSocket s)[i := c])" by (rule list_all_update)
  moreover have "map clientID ((m_ClientSocket s)[i := c]) = map clientID (m_ClientSocket s)"
    using handler_frame_fields(11) [OF assms(1)] by (simp add: t)
  ultimately show ?thesis
    using assms(2) by (simp add: server_inv_def ids_ok_def t)
qed

lemmas CallHandler_inv = handler_frame_inv [OF CallHandler_frame]

lemma server_inv_client:
  "server_inv s \<Longrightarrow> c \<in> set (m_ClientSocket s) \<Longrightarrow> client_ok (rooms s) c"
  by (simp add: server_inv_def list_all_iff)

lemma server_inv_filter_ssl:
  "server_inv s \<Longrightarrow> filter (\<lambda>c. sslEnabled c \<and> P c) (m_ClientSocket s) = filter P (m_ClientSocket s)"
  by (rule filter_cong) (auto dest: server_inv_client simp: client_ok_def)

section \<open>A received request\<close>

definition received :: "server \<Rightarrow> bytes \<Rightarrow> bool" where
  "received s pkt \<longleftrightarrow> length pkt \<le> length (buffer s) \<and> take (length pkt) (buffer s) = pkt"

lemma receivedE:
  assumes "received s pkt"
  obtains stale where "buffer s = pkt @ stale"
  using assms unfolding received_def by (metis append_take_drop_id)

lemma received_opcode:
  assumes "received s (packet_header e' op @ body)"
  shows "header_opcode e (buffer s) = opcode op"
  using assms by (auto elim!: receivedE)

lemma received_payload:
  assumes "received s (packet_header e' op @ body)"
  shows "with_payload (2 + length body) s f = Inr (f body)"
proof -
  from assms obtain stale where "buffer s = packet_header e' op @ body @ stale"
    by (auto elim: receivedE)
  then show ?thesis by (simp add: with_payload_def read_at_def)
qed

text \<open>A request at the front of the receive buffer, with zero bytes behind it.\<close>

definition sample_server :: "bytes \<Rightarrow> server" where
  "sample_server pkt =
     \<lparr>m_StartTime = 0, m_UniqueCLientCounter = 3, buffer = pkt @ replicate (4096 - length pkt) 0,
      m_MasterSocket = 3,
      m_ClientSocket =
        [(ClientSocket_new (Some 1) 5)\<lparr>sslEnabled := True, clientID := 1,
           joinedChatRoomID := 7, chatRoomJoined := True\<rparr>,
         (ClientSocket_new (Some 2) 6)\<lparr>sslEnabled := True, clientID := 2\<rparr>],
      m_ServerState = STARTED, m_ctx = Ctx_live, m_SendHelloMsg = False, m_Readfds = {3, 5, 6},
      rooms = [7 \<mapsto> \<lparr>name = ascii ''lobby'', passwordHash = []\<rparr>,
               9 \<mapsto> \<lparr>name = ascii ''vault'', passwordHash = replicate 32 171\<rparr>],
      m_Counter = 41, hist = []\<rparr>"

lemma sample_server_received: "length pkt \<le> 4096 \<Longrightarrow> received (sample_server pkt) pkt"
  by (simp add: sample_server_def received_def)

lemma sample_server_inv: "length pkt \<le> 4096 \<Longrightarrow> server_inv (sample_server pkt)"
  by (simp add: server_inv_def sample_server_def BUFFER_SIZE_def client_ok_def ids_ok_def
      ClientSocket_new_def checkRoomID_def)

lemma sample_server_clients [simp]:
  "m_ClientSocket (sample_server pkt) =
     [(ClientSocket_new (Some 1) 5)\<lparr>sslEnabled := True, clientID := 1,
           joinedChatRoomID := 7, chatRoomJoined := True\<rparr>,
      (ClientSocket_new (Some 2) 6)\<lparr>sslEnabled := True, clientID := 2\<rparr>]"
  "hist (sample_server pkt) = []"
  by (simp_all add: sample_server_def)

section \<open>Echo, broadcast and chat\<close>

text \<open>
  An echo request is answered with its own payload, byte for byte, in one packet to the
  client that sent it, and nothing else happens.
\<close>

theorem echo_reply:
  assumes "received s (packet_header e CMSG_ECHO_REQUEST @ msg)"
  shows "\<exists>t. CallHandler E i (2 + length msg) s = Inr t \<and> only_sends s t
    \<and> sent (hist t) = sent (hist s) @
        [(ssl (m_ClientSocket s ! i), packet_header (host E) SMSG_ECHO_REQUEST @ msg)]"
  by (simp add: CallHandler_def received_opcode [OF assms] received_payload [OF assms]
      CallHandlerEcho_def)

theorem echo_reply_witness:
  "\<exists>t. CallHandler sample_env 1 4 (sample_server (packet_header Big_endian CMSG_ECHO_REQUEST @ [104, 105])) = Inr t
     \<and> sent (hist t) = [(Some 2, packet_header Little_endian SMSG_ECHO_REQUEST @ [104, 105])]"
  using echo_reply [OF sample_server_received [of "packet_header Big_endian CMSG_ECHO_REQUEST @ [104, 105]"],
      of sample_env 1]
  by (auto simp: ClientSocket_new_def sample_env_def)

lemma broadcast_sends:
  assumes "server_inv s"
  shows "only_sends s (CallHandlerBroadcast E msg s)
    \<and> sent (hist (CallHandlerBroadcast E msg s)) = sent (hist s) @
        map (\<lambda>c. (ssl c, packet_header (host E) SMSG_BROADCAST @ msg)) (m_ClientSocket s)"
proof -
  have "filter sslEnabled (m_ClientSocket s) = m_ClientSocket s"
    using server_inv_filter_ssl [OF assms, of "\<lambda>c. True"] by simp
  then show ?thesis by (simp add: CallHandlerBroadcast_def broadcast_loop_sends)
qed

text \<open>
  C17. A broadcast goes to every connected client, the sender included, once and in the
  order of connection, with the payload unchanged.
\<close>

theorem broadcast_delivery:
  assumes "server_inv s" and "received s (packet_header e CMSG_BROADCAST_MESSAGE @ msg)"
  shows "\<exists>t. CallHandler E i (2 + length msg) s = Inr t \<and> only_sends s t
    \<and> sent (hist t) = sent (hist s) @
        map (\<lambda>c. (ssl c, packet_header (host E) SMSG_BROADCAST @ msg)) (m_ClientSocket s)"
  using broadcast_sends [OF assms(1), of E msg]
  by (simp add: CallHandler_def received_opcode [OF assms(2)] received_payload [OF assms(2)])

theorem broadcast_delivery_witness:
  "\<exists>t. CallHandler sample_env 1 3 (sample_server (packet_header Big_endian CMSG_BROADCAST_MESSAGE @ [33])) = Inr t
     \<and> sent (hist t) = [(Some 1, packet_header Little_endian SMSG_BROADCAST @ [33]),
                        (Some 2, packet_header Little_endian SMSG_BROADCAST @ [33])]"
  using broadcast_delivery [OF sample_server_inv
      sample_server_received [of "packet_header Big_endian CMSG_BROADCAST_MESSAGE @ [33]"], of sample_env 1]
  by (auto simp: ClientSocket_new_def sample_env_def)

lemma say_sends:
  assumes "server_inv s" and "i < length (m_ClientSocket s)"
  shows "only_sends s (CallHandlerSay E i msg s)
    \<and> sent (hist (CallHandlerSay E i msg s)) = sent (hist s) @
        (let c = m_ClientSocket s ! i
         in if chatRoomJoined c
            then (ssl c, packet_header (host E) SMSG_SAY_OK) #
                 map (\<lambda>d. (ssl d, packet_header (host E) SMSG_SAY @ msg))
                   (filter (\<lambda>d. joinedChatRoomID d = joinedChatRoomID c \<and> chatRoomJoined d)
                      (m_ClientSocket s))
            else [(ssl c, packet_header (host E) SMSG_SAY_ERR @ [err_code ERR_NO_ROOM_JOINED])])"
proof -
  let ?c = "m_ClientSocket s ! i"
  have "client_ok (rooms s) ?c"
    using assms by (auto intro: server_inv_client)
  then have known: "chatRoomJoined ?c \<Longrightarrow> checkRoomID (joinedChatRoomID ?c) (rooms s)"
    by (simp add: client_ok_def)
  show ?thesis
    using known server_inv_filter_ssl [OF assms(1)]
    by (auto simp: CallHandlerSay_def Let_def say_loop_sends
        intro: only_sends_trans [OF only_sends_send say_loop_sends [THEN conjunct1]])
qed

text \<open>
  C12. A chat line reaches exactly the members of the sender's room, in order of connection,
  after the sender got its acknowledgement; a sender that joined no room gets the
  corresponding error and nobody else hears of it. The third outcome of the code, a joined
  room that is not in the table, cannot occur.
\<close>

theorem say_delivery:
  assumes "server_inv s" and "i < length (m_ClientSocket s)"
    and "received s (packet_header e CMSG_SAY @ msg)"
  shows "\<exists>t. CallHandler E i (2 + length msg) s = Inr t \<and> only_sends s t
    \<and> sent (hist t) = sent (hist s) @
        (let c = m_ClientSocket s ! i
         in if chatRoomJoined c
            then (ssl c, packet_header (host E) SMSG_SAY_OK) #
                 map (\<lambda>d. (ssl d, packet_header (host E) SMSG_SAY @ msg))
                   (filter (\<lambda>d. joinedChatRoomID d = joinedChatRoomID c \<and> chatRoomJoined d)
                      (m_ClientSocket s))
            else [(ssl c, packet_header (host E) SMSG_SAY_ERR @ [err_code ERR_NO_ROOM_JOINED])])"
  using say_sends [OF assms(1,2), of E msg]
  by (simp add: CallHandler_def received_opcode [OF assms(3)] received_payload [OF assms(3)])

theorem say_delivery_witness:
  "\<exists>t. CallHandler sample_env 0 3 (sample_server (packet_header Big_endian CMSG_SAY @ [33])) = Inr t
     \<and> sent (hist t) = [(Some 1, packet_header Little_endian SMSG_SAY_OK),
                        (Some 1, packet_header Little_endian SMSG_SAY @ [33])]"
  using say_delivery [OF sample_server_inv _
      sample_server_received [of "packet_header Big_endian CMSG_SAY @ [33]"], of 0 sample_env]
  by (auto simp: ClientSocket_new_def sample_env_def)

section \<open>Joining a room\<close>

lemma join_call:
  assumes "received s (packet_header e CMSG_JOIN_ROOM @ r # hash)" and "length hash = 32"
  shows "CallHandler E i 35 s =
    (case join_check r hash (rooms s) of
       Inl f \<Rightarrow> Inl f
     | Inr (error, m) \<Rightarrow> Inr (join_reply E i r error (s\<lparr>rooms := m\<rparr>)))"
proof -
  from assms(1) obtain stale where buf: "buffer s = packet_header e CMSG_JOIN_ROOM @ r # hash @ stale"
    by (auto elim: receivedE)
  then have "read_at (buffer s) 2 1 = Inr [r]" "read_at (buffer s) 3 32 = Inr hash"
    using assms(2) by (simp_all add: read_at_def drop_Cons')
  then show ?thesis
    by (simp add: CallHandler_def received_opcode [OF assms(1)] SHA256_DIGEST_LENGTH_def
        CallHandlerJoinRoom_def)
qed

text \<open>
  C11. Every way a join request can end. An unknown room is refused, and the table then has
  an empty, open room under that number. An open room, or a protected one whose stored
  digest equals the one sent, is joined: the client is recorded as its member and told so.
  A wrong digest is refused and changes nothing. A stored digest that is too short to be
  compared is read past its end.
\<close>

theorem join_room_outcome:
  assumes "received s (packet_header e CMSG_JOIN_ROOM @ r # hash)" and "length hash = 32"
  shows "(let c = m_ClientSocket s ! i;
        joined = c\<lparr>joinedChatRoomID := r, chatRoomJoined := True\<rparr>;
        answer = (\<lambda>pkt m cs. \<exists>t. CallHandler E i 35 s = Inr t \<and> rooms t = m \<and> m_ClientSocket t = cs
          \<and> m_Counter t = m_Counter s \<and> sent (hist t) = sent (hist s) @ [(ssl c, pkt)])
    in case rooms s r of
         None \<Rightarrow> answer (packet_header (host E) SMSG_JOIN_CHAT_ROOM_ERR @ [err_code ERR_INVALID_ROOM])
           ((rooms s)(r \<mapsto> ChatRoom_default)) (m_ClientSocket s)
       | Some room \<Rightarrow>
           (if passwordHash room \<noteq> [] \<and> length (passwordHash room) < 31
            then CallHandler E i 35 s = Inl Out_of_bounds
            else if passwordHash room = [] \<or> take 32 (passwordHash room @ [0]) = hash
            then answer (packet_header (host E) SMSG_JOIN_CHAT_ROOM_OK @ [r])
              (rooms s) ((m_ClientSocket s)[i := joined])
            else answer (packet_header (host E) SMSG_JOIN_CHAT_ROOM_ERR @ [err_code ERR_INVALID_ROOM_PASSWORD])
              (rooms s) (m_ClientSocket s)))"
proof (cases "rooms s r")
  case None
  then show ?thesis
    by (simp add: join_call [OF assms] join_check_def checkRoomID_def isRoomProtected_unknown
        join_reply_def)
next
  case (Some room)
  have cmp: "passwordHash room \<noteq> [] \<Longrightarrow> checkPasswordHash r hash (rooms s) =
      (if length (passwordHash room) < 31 then Inl Out_of_bounds
       else Inr (take 32 (passwordHash room @ [0]) = hash, rooms s))"
    using assms(2)
    by (auto simp: checkPasswordHash_def subscript_known [of "rooms s", OF Some] read_at_def SHA256_DIGEST_LENGTH_def)
  show ?thesis
    using Some cmp
    by (simp add: join_call [OF assms] join_check_def checkRoomID_def isRoomProtected_known
        join_reply_def Let_def)
qed

theorem join_room_outcome_witness:
  "\<exists>t. CallHandler sample_env 1 35
      (sample_server (packet_header Big_endian CMSG_JOIN_ROOM @ 9 # replicate 32 171)) = Inr t
    \<and> joinedChatRoomID (m_ClientSocket t ! 1) = 9 \<and> chatRoomJoined (m_ClientSocket t ! 1)
    \<and> sent (hist t) = [(Some 2, packet_header Little_endian SMSG_JOIN_CHAT_ROOM_OK @ [9])]"
proof -
  let ?s = "sample_server (packet_header Big_endian CMSG_JOIN_ROOM @ 9 # replicate 32 171)"
  have "rooms ?s 9 = Some \<lparr>name = ascii ''vault'', passwordHash = replicate 32 171\<rparr>"
    by (simp add: sample_server_def)
  then show ?thesis
    using join_room_outcome [of ?s Big_endian 9 "replicate 32 171" 1 sample_env,
        OF sample_server_received]
    by (auto simp: Let_def ClientSocket_new_def sample_env_def)
qed

text \<open>
  C25. The room table is not protected against requests for rooms that do not exist: the
  same join request that is refused at first succeeds when it is repeated, with any digest,
  because asking whether the room is protected has created it.
\<close>

theorem join_unknown_room_twice:
  assumes "received s (packet_header e CMSG_JOIN_ROOM @ r # hash)" and "length hash = 32"
    and "i < length (m_ClientSocket s)" and "\<not> checkRoomID r (rooms s)"
  shows "\<exists>t u. CallHandler E i 35 s = Inr t \<and> m_ClientSocket t = m_ClientSocket s
    \<and> CallHandler E i 35 t = Inr u
    \<and> joinedChatRoomID (m_ClientSocket u ! i) = r \<and> chatRoomJoined (m_ClientSocket u ! i)
    \<and> sent (hist u) = sent (hist s) @
        [(ssl (m_ClientSocket s ! i), packet_header (host E) SMSG_JOIN_CHAT_ROOM_ERR @ [err_code ERR_INVALID_ROOM]),
         (ssl (m_ClientSocket s ! i), packet_header (host E) SMSG_JOIN_CHAT_ROOM_OK @ [r])]"
proof -
  let ?m = "(rooms s)(r \<mapsto> ChatRoom_default)"
  let ?t = "join_reply E i r ERR_INVALID_ROOM (s\<lparr>rooms := ?m\<rparr>)"
  have t: "CallHandler E i 35 s = Inr ?t"
    using assms(4)
    by (simp add: join_call [OF assms(1,2)] join_check_def checkRoomID_def isRoomProtected_unknown)
  have "received ?t (packet_header e CMSG_JOIN_ROOM @ r # hash)"
    using assms(1) by (simp add: received_def join_reply_def)
  from join_call [OF this assms(2)] have "CallHandler E i 35 ?t = Inr (join_reply E i r ERR_OK ?t)"
    by (simp add: join_reply_def send_eq join_check_def checkRoomID_def isRoomProtected_known
        ChatRoom_default_def)
  then show ?thesis
    using t assms(3) by (simp add: join_reply_def Let_def)
qed

theorem join_unknown_room_twice_witness:
  "\<exists>t u. CallHandler sample_env 1 35
       (sample_server (packet_header Big_endian CMSG_JOIN_ROOM @ 200 # replicate 32 0)) = Inr t
     \<and> CallHandler sample_env 1 35 t = Inr u \<and> joinedChatRoomID (m_ClientSocket u ! 1) = 200"
proof -
  let ?s = "sample_server (packet_header Big_endian CMSG_JOIN_ROOM @ 200 # replicate 32 0)"
  have "\<not> checkRoomID 200 (rooms ?s)" by (simp add: sample_server_def checkRoomID_def)
  then show ?thesis
    using join_unknown_room_twice [of ?s Big_endian 200 "replicate 32 0" 1 sample_env,
        OF sample_server_received] by auto
qed

section \<open>Private messages\<close>

lemma find_distinct:
  assumes "distinct (map f xs)" and "x \<in> set xs"
  shows "List.find (\<lambda>y. f y = f x) xs = Some x"
  using assms by (induction xs) (auto simp: image_iff)

lemma server_inv_distinct: "server_inv s \<Longrightarrow> distinct (map clientID (m_ClientSocket s))"
  using strict_sorted_iff by (auto simp: server_inv_def ids_ok_def)

lemma msg_call:
  assumes buf: "buffer s = packet_header e CMSG_SEND_MSG_TO_CLIENT @ mem_bytes (host E) cid @ msg @ stale"
  shows "CallHandler E i (10 + length msg) s =
    (case msg_target cid (m_ClientSocket s ! i) (m_ClientSocket s) of
       Inl error \<Rightarrow> Inr (send_msg_status E (m_ClientSocket s ! i) error s)
     | Inr foundClient \<Rightarrow>
         (if length stale < 10 then Inl Out_of_bounds
          else Inr (SendSSLPacketToClientSocket E foundClient
             (packet_header (host E) SMSG_PRIVATE_MESSAGE @
              mem_bytes (host E) (clientID (m_ClientSocket s ! i)) @ msg @ take 10 stale)
             (send_msg_status E (m_ClientSocket s ! i) ERR_OK s))))"
proof -
  have len: "length (mem_bytes (host E) cid) = 8" by simp
  have idb: "read_at (buffer s) 2 8 = Inr (mem_bytes (host E) cid)"
    by (simp add: buf read_at_def)
  have body: "read_at (buffer s) (2 + 8) (10 + length msg) =
      (if length stale < 10 then Inl Out_of_bounds else Inr (msg @ take 10 stale))"
    by (auto simp: buf read_at_def)
  have "header_opcode (host E) (buffer s) = opcode CMSG_SEND_MSG_TO_CLIENT"
    by (simp add: buf)
  then show ?thesis
    by (auto simp: CallHandler_def CallHandlerMsgToClient_def Let_def idb body [simplified]
        mem64.dec_enc split: sum.split)
qed

text \<open>
  C13. Every way a request to send a private message can end. To oneself or to a number
  nobody has, it is refused with the matching code and nobody else hears of it. Otherwise
  the sender is acknowledged and the recipient gets the sender's number and the text,
  followed by ten bytes that were not part of the request but lay behind it in the receive
  buffer; a request that ends less than ten bytes before the end of the buffer is read
  past that end.
\<close>

theorem private_message_outcome:
  assumes "server_inv s"
    and buf: "buffer s = packet_header e CMSG_SEND_MSG_TO_CLIENT @ mem_bytes (host E) cid @ msg @ stale"
  shows "(let c = m_ClientSocket s ! i;
       status = (\<lambda>err. (ssl c, packet_header (host E) SMSG_PRIVATE_MSG_ERR @ [err_code err]));
       run = CallHandler E i (10 + length msg) s;
       answer = (\<lambda>out. \<exists>t. run = Inr t \<and> only_sends s t \<and> sent (hist t) = sent (hist s) @ out)
     in if cid = clientID c then answer [status ERR_MSG_TO_SELF]
        else if cid \<notin> clientID ` set (m_ClientSocket s) then answer [status ERR_NO_CLIENT_FOUND]
        else if length stale < 10 then run = Inl Out_of_bounds
        else \<exists>d \<in> set (m_ClientSocket s). clientID d = cid \<and>
          answer [status ERR_OK, (ssl d, packet_header (host E) SMSG_PRIVATE_MESSAGE @
             mem_bytes (host E) (clientID c) @ msg @ take 10 stale)])"
proof -
  let ?c = "m_ClientSocket s ! i"
  consider "cid = clientID ?c" | "cid \<noteq> clientID ?c" "cid \<notin> clientID ` set (m_ClientSocket s)"
    | d where "cid \<noteq> clientID ?c" "d \<in> set (m_ClientSocket s)" "clientID d = cid"
    by blast
  then show ?thesis
  proof cases
    case 1
    then show ?thesis
      by (simp add: msg_call [OF buf] msg_target_def send_msg_status_def)
  next
    case 2
    then have "List.find (\<lambda>c. clientID c = cid) (m_ClientSocket s) = None"
      by (auto simp: find_None_iff)
    with 2 show ?thesis
      by (simp add: msg_call [OF buf] msg_target_def send_msg_status_def)
  next
    case (3 d)
    then have "List.find (\<lambda>c. clientID c = cid) (m_ClientSocket s) = Some d"
      using find_distinct [OF server_inv_distinct [OF assms(1)], of d] by simp
    with 3 show ?thesis
      by (auto simp: msg_call [OF buf] msg_target_def send_msg_status_def Let_def
          intro: only_sends_trans [OF only_sends_send only_sends_send])
  qed
qed

theorem private_message_outcome_witness:
  "\<exists>t. CallHandler sample_env 0 12 (sample_server
        (packet_header Big_endian CMSG_SEND_MSG_TO_CLIENT @ mem_bytes Little_endian (2 :: u64) @ [72, 105])) = Inr t
     \<and> sent (hist t) =
         [(Some 1, packet_header Little_endian SMSG_PRIVATE_MSG_ERR @ [0]),
          (Some 2, packet_header Little_endian SMSG_PRIVATE_MESSAGE @ mem_bytes Little_endian (1 :: u64) @
             [72, 105] @ replicate 10 0)]"
proof -
  let ?pkt = "packet_header Big_endian CMSG_SEND_MSG_TO_CLIENT @ mem_bytes Little_endian (2 :: u64) @ [72, 105]"
  have buf: "buffer (sample_server ?pkt) = packet_header Big_endian CMSG_SEND_MSG_TO_CLIENT @
      mem_bytes (host sample_env) (2 :: u64) @ [72, 105] @ replicate 4084 0"
    by (simp add: sample_server_def sample_env_def)
  show ?thesis
    using private_message_outcome [OF sample_server_inv buf, of 0]
    by (auto simp: Let_def ClientSocket_new_def sample_env_def)
qed

section \<open>Addition\<close>

lemma add_loop_numbers:
  assumes "length pre = offset"
  shows "add_loop E (pre @ concat (map (tagged (host E)) ns) @ stale)
      (offset + length (concat (map (tagged (host E)) ns))) offset acc =
    Inr (fold (\<lambda>n acc. double_add (fpe E) acc (number_to_double (fpe E) n)) ns acc)"
  using assms
proof (induction ns arbitrary: pre offset acc)
  case Nil
  then show ?case by (simp add: add_loop.simps)
next
  case (Cons n ns)
  let ?e = "host E"
  let ?t = "type_code (get_number_type n)"
  let ?tail = "concat (map (tagged ?e) ns) @ stale"
  let ?off = "Suc offset + length (number_bytes ?e n)"
  have b1: "read_at (pre @ ?t # number_bytes ?e n @ ?tail) offset 1 = Inr [?t]"
    using Cons.prems by (simp add: read_at_def)
  have b2: "read_number ?e (pre @ ?t # number_bytes ?e n @ ?tail) (offset + 1) ?t = Inr (n, ?off)"
    using read_number_append [of "pre @ [?t]" "Suc offset" ?e n ?tail] Cons.prems by simp
  have ih: "add_loop E ((pre @ ?t # number_bytes ?e n) @ ?tail)
      (?off + length (concat (map (tagged ?e) ns))) ?off
      (double_add (fpe E) acc (number_to_double (fpe E) n)) =
    Inr (fold (\<lambda>n acc. double_add (fpe E) acc (number_to_double (fpe E) n)) ns
      (double_add (fpe E) acc (number_to_double (fpe E) n)))"
    using Cons.prems by (intro Cons.IH) simp
  show ?case
    using b1 b2 ih by (subst add_loop.simps) (simp add: tagged_def add.assoc)
qed

lemma add_call:
  assumes "received s (packet_header e CMSG_ADDITION_REQUEST @ concat (map (tagged (host E)) ns))"
    and "2 \<le> length ns"
  shows "CallHandler E i (2 + length (concat (map (tagged (host E)) ns))) s =
    Inr (SendSSLPacketToClientSocket E (m_ClientSocket s ! i)
      (packet_header (host E) SMSG_ADDITION_REQUEST @ mem_bytes (host E)
        (fold (\<lambda>n acc. double_add (fpe E) acc (number_to_double (fpe E) n)) ns 0)) s)"
proof -
  from assms(1) obtain stale where
    "buffer s = packet_header e CMSG_ADDITION_REQUEST @ concat (map (tagged (host E)) ns) @ stale"
    by (auto elim: receivedE)
  then have loop: "add_loop E (buffer s) (2 + length (concat (map (tagged (host E)) ns))) 2 0 =
      Inr (fold (\<lambda>n acc. double_add (fpe E) acc (number_to_double (fpe E) n)) ns 0)"
    using add_loop_numbers [of "packet_header e CMSG_ADDITION_REQUEST" 2 E ns stale 0] by simp
  from concat_tagged_length [of ns "host E"] assms(2) have "6 \<le> 2 + length (concat (map (tagged (host E)) ns))" by linarith
  with loop show ?thesis
    by (simp add: CallHandler_def received_opcode [OF assms(1)] CallHandlerAdd_def)
qed

fun prefix_sums :: "int \<Rightarrow> int list \<Rightarrow> int list" where
  "prefix_sums a [] = [a]"
| "prefix_sums a (x # xs) = a # prefix_sums (a + x) xs"

lemma number_to_double_int: "num_int n = Some i \<Longrightarrow> number_to_double P n = double_of_int i"
  by (cases n) simp_all

lemma fold_double_add_int:
  assumes "list_all2 (\<lambda>n x. num_int n = Some x \<and> \<bar>x\<bar> \<le> 2 ^ 53) ns xs"
    and "\<forall>a \<in> set (prefix_sums a xs). \<bar>a\<bar> \<le> 2 ^ 53"
  shows "fold (\<lambda>n acc. double_add P acc (number_to_double P n)) ns (double_of_int a) =
    double_of_int (a + sum_list xs)"
  using assms
proof (induction arbitrary: a rule: list_all2_induct)
  case (Cons n ns x xs)
  from Cons.prems have "\<bar>a\<bar> \<le> 2 ^ 53" by simp
  with Cons.hyps(1) have "double_add P (double_of_int a) (number_to_double P n) = double_of_int (a + x)"
    by (simp add: number_to_double_int double_add_of_int)
  with Cons.IH [of "a + x"] Cons.prems show ?case by (simp add: add.assoc)
qed simp

lemma double_of_int_0 [simp]: "double_of_int 0 = 0"
  by (simp add: double_of_int_def rounding_eval)

text \<open>
  C15. The answer to an addition request carries the exact sum of the numbers, as the
  \<open>double\<close> of that integer, whatever integer types the operands came in, as long as
  operands and partial sums stay within \<open>2\<^sup>5\<^sup>3\<close>, the range in which every integer is a
  \<open>double\<close>. It goes to the client that asked, and nothing else happens.
\<close>

theorem addition_exact:
  assumes "received s (packet_header e CMSG_ADDITION_REQUEST @ concat (map (tagged (host E)) ns))"
    and "2 \<le> length ns"
    and "list_all2 (\<lambda>n x. num_int n = Some x \<and> \<bar>x\<bar> \<le> 2 ^ 53) ns xs"
    and "\<forall>a \<in> set (prefix_sums 0 xs). \<bar>a\<bar> \<le> 2 ^ 53"
  shows "\<exists>t. CallHandler E i (2 + length (concat (map (tagged (host E)) ns))) s = Inr t
    \<and> only_sends s t
    \<and> sent (hist t) = sent (hist s) @ [(ssl (m_ClientSocket s ! i),
        packet_header (host E) SMSG_ADDITION_REQUEST @ mem_bytes (host E) (double_of_int (sum_list xs)))]"
  using fold_double_add_int [OF assms(3,4), of "fpe E"] by (simp add: add_call [OF assms(1,2)])

theorem addition_exact_witness:
  "(let ns = [Uint8 200, Int16 (- 300), Uint64 9007199254740992];
        pkt = packet_header Big_endian CMSG_ADDITION_REQUEST @ concat (map (tagged Little_endian) ns)
    in \<exists>t. CallHandler sample_env 1 (length pkt) (sample_server pkt) = Inr t
      \<and> sent (hist t) = [(Some 2, packet_header Little_endian SMSG_ADDITION_REQUEST @
            mem_bytes Little_endian (double_of_int 9007199254740892))])"
proof -
  let ?ns = "[Uint8 200, Int16 (- 300), Uint64 9007199254740992]"
  let ?pkt = "packet_header Big_endian CMSG_ADDITION_REQUEST @ concat (map (tagged Little_endian) ?ns)"
  have h: "host sample_env = Little_endian" by (simp add: sample_env_def)
  have "length ?pkt \<le> 4096" by (simp add: tagged_def)
  from sample_server_received [OF this] show ?thesis
    using addition_exact [of "sample_server ?pkt" Big_endian sample_env ?ns
        "[200, - 300, 9007199254740992]" 1]
    by (auto simp: h Let_def ClientSocket_new_def)
qed



section \<open>Uptime\<close>

text \<open>
  The uptime reply spells the time since the start in hours, minutes and seconds, with
  minutes and seconds below sixty, that add up to the whole seconds elapsed. The clock is
  read once, before the reply is sent.
\<close>

theorem uptime_reply:
  assumes "received s (packet_header e CMSG_UPTIME @ body)"
    and "m_StartTime s \<le> now_ns E (hist s)"
  shows "\<exists>t h m sec. CallHandler E i n s = Inr t \<and> only_sends s t
    \<and> sent (hist t) = sent (hist s) @ [(ssl (m_ClientSocket s ! i), packet_header (host E) SMSG_UPTIME @
        ascii (''Uptime: '' @ show_nat h @ ''h '' @ show_nat m @ ''m '' @ show_nat sec @ ''s''))]
    \<and> m < 60 \<and> sec < 60
    \<and> int (h * 3600 + m * 60 + sec) = (now_ns E (hist s) - m_StartTime s) div 1000000000"
proof -
  define d where "d = (now_ns E (hist s) - m_StartTime s) div 1000000000"
  have d: "0 \<le> d" using assms(2) by (simp add: d_def)
  have show_nonneg: "0 \<le> x \<Longrightarrow> show_int x = show_nat (nat x)" for x
    by (simp add: show_int_def)
  have text_eq: "uptime_text (now_ns E (hist s) - m_StartTime s) =
      ''Uptime: '' @ show_nat (nat (d div 3600)) @ ''h '' @ show_nat (nat (d mod 3600 div 60)) @
      ''m '' @ show_nat (nat (d mod 3600 mod 60)) @ ''s''"
    using assms(2) d
    by (simp add: uptime_text_def Let_def c_div_nonneg c_mod_nonneg show_nonneg
        pos_imp_zdiv_nonneg_iff flip: d_def)
  have call: "CallHandler E i n s = Inr (CallHandlerUptime E i s)"
    by (simp add: CallHandler_def received_opcode [OF assms(1)])
  have out: "sent (hist (CallHandlerUptime E i s)) = sent (hist s) @ [(ssl (m_ClientSocket s ! i),
      packet_header (host E) SMSG_UPTIME @ ascii (uptime_text (now_ns E (hist s) - m_StartTime s)))]"
    by (simp add: CallHandlerUptime_def Let_def)
  have "int (nat (d div 3600) * 3600 + nat (d mod 3600 div 60) * 60 + nat (d mod 3600 mod 60)) = d"
    using d by (simp add: pos_imp_zdiv_nonneg_iff)
  moreover have "d mod 3600 < 3600" and "d mod 3600 mod 60 < 60" by simp_all
  then have "d mod 3600 div 60 < 60" and "d mod 3600 mod 60 < 60" by linarith+
  then have "nat (d mod 3600 div 60) < 60" and "nat (d mod 3600 mod 60) < 60"
    by linarith+
  ultimately show ?thesis
    using only_sends_uptime [of s E i] out call unfolding text_eq d_def [symmetric] by blast
qed

theorem uptime_reply_witness:
  "\<exists>t (h :: nat) m sec. CallHandler sample_env 0 2 ((sample_server (packet_header Big_endian CMSG_UPTIME @ []))\<lparr>
       hist := replicate 3725 (Ev_now 0)\<rparr>) = Inr t \<and> m < 60 \<and> sec < 60 \<and> h * 3600 + m * 60 + sec = 3725"
proof -
  let ?s = "(sample_server (packet_header Big_endian CMSG_UPTIME @ []))\<lparr>hist := replicate 3725 (Ev_now 0)\<rparr>"
  have "received ?s (packet_header Big_endian CMSG_UPTIME @ [])"
    using sample_server_received [of "packet_header Big_endian CMSG_UPTIME @ []"]
    by (simp add: received_def)
  moreover have "m_StartTime ?s = 0" "now_ns sample_env (hist ?s) = 3725000000000"
    by (simp_all add: sample_env_def sample_server_def)
  ultimately obtain t h m sec where "CallHandler sample_env 0 2 ?s = Inr t" "m < 60" "sec < 60"
    "int (h * 3600 + m * 60 + sec) = 3725"
    using uptime_reply [of ?s Big_endian "[]" sample_env 0 2] by auto
  moreover from this have "h * 3600 + m * 60 + sec = 3725" by linarith
  ultimately show ?thesis by blast
qed

section \<open>The client list\<close>

definition listed :: "u64 \<Rightarrow> ClientSocket \<Rightarrow> bytes" where
  "listed self d = be_bytes (clientID d) @
     (if clientID d = self then be_bytes (11 :: u16) @ ascii ''<unk> (you)''
      else be_bytes (5 :: u16) @ ascii ''<unk>'')"

lemma client_entry_listed: "client_ok m d \<Longrightarrow> client_entry e self d = listed self d"
  by (simp add: client_ok_def client_entry_def listed_def Let_def flip: ascii_append)

lemma length_listed:
  "length (concat (map (listed self) cs)) =
     15 * length cs + 6 * length (filter (\<lambda>d. clientID d = self) cs)"
  by (induction cs) (simp_all add: listed_def)

lemma filter_self:
  assumes "distinct (map f xs)" and "i < length xs"
  shows "filter (\<lambda>y. f y = f (xs ! i)) xs = [xs ! i]"
  using assms
proof (induction xs arbitrary: i)
  case (Cons x xs)
  show ?case
  proof (cases i)
    case 0
    with Cons.prems show ?thesis by (auto simp: filter_empty_conv image_iff)
  next
    case (Suc j)
    with Cons show ?thesis by auto
  qed
qed simp

lemma client_list_sends:
  assumes inv: "server_inv s" and i: "i < length (m_ClientSocket s)"
  shows "sent (hist (CallHandlerGetClientList E i s)) = sent (hist s) @ [(ssl (m_ClientSocket s ! i),
    packet_header (host E) SMSG_CLIENT_LIST @
      (if length (m_ClientSocket s) \<le> 272
       then err_code ERR_OK # concat (map (listed (clientID (m_ClientSocket s ! i))) (m_ClientSocket s))
       else [err_code ERR_TOO_MUCH_CLIENTS]))]"
proof -
  let ?cs = "m_ClientSocket s" and ?self = "clientID (m_ClientSocket s ! i)"
  have entries: "map (client_entry (host E) ?self) ?cs = map (listed ?self) ?cs"
    using inv by (auto dest: server_inv_client client_entry_listed)
  have size: "length (concat (map (listed ?self) ?cs)) = 15 * length ?cs + 6"
    using filter_self [OF server_inv_distinct [OF inv] i] by (simp add: length_listed)
  have some: "0 < length ?cs" using i by linarith
  show ?thesis
    using some unfolding CallHandlerGetClientList_def Let_def entries size by auto
qed

text \<open>
  C16. The client list names every connected client once, in order of connection, with its
  number and its name in network byte order, the asking client marked; it is sent as long
  as at most 272 clients are connected, which is exactly when it fits the client's receive
  buffer. With more clients the reply is an error code.
\<close>

theorem client_list_reply:
  assumes inv: "server_inv s" and i: "i < length (m_ClientSocket s)"
    and req: "received s (packet_header e CMSG_GET_CLIENT_LIST @ body)"
  shows "\<exists>t. CallHandler E i n s = Inr t \<and> only_sends s t
    \<and> sent (hist t) = sent (hist s) @ [(ssl (m_ClientSocket s ! i),
        packet_header (host E) SMSG_CLIENT_LIST @
          (if length (m_ClientSocket s) \<le> 272
           then err_code ERR_OK # concat (map (listed (clientID (m_ClientSocket s ! i))) (m_ClientSocket s))
           else [err_code ERR_TOO_MUCH_CLIENTS]))]"
  using client_list_sends [OF inv i, of E]
  by (simp add: CallHandler_def received_opcode [OF req] only_sends_client_list)

theorem client_list_reply_witness:
  "\<exists>t. CallHandler sample_env 0 2 (sample_server (packet_header Big_endian CMSG_GET_CLIENT_LIST @ [])) = Inr t
     \<and> sent (hist t) = [(Some 1, packet_header Little_endian SMSG_CLIENT_LIST @ 0 #
          be_bytes (1 :: u64) @ be_bytes (11 :: u16) @ ascii ''<unk> (you)'' @
          be_bytes (2 :: u64) @ be_bytes (5 :: u16) @ ascii ''<unk>'')]"
proof -
  let ?s = "sample_server (packet_header Big_endian CMSG_GET_CLIENT_LIST @ [])"
  have "server_inv ?s" "received ?s (packet_header Big_endian CMSG_GET_CLIENT_LIST @ [])"
    by (simp_all add: sample_server_inv sample_server_received del: append_Nil2)
  then show ?thesis
    using client_list_reply [of ?s 0 Big_endian "[]" sample_env 2]
    by (auto simp: ClientSocket_new_def sample_env_def listed_def)
qed

section \<open>Where a handler can fail\<close>

lemma read_number_faults:
  "read_number e buf off ty = Inl f \<Longrightarrow> f \<in> {Out_of_bounds, Runtime_error ''Unknown number type''}"
  by (auto simp: read_number_def read_as_def read_at_def split: if_splits)

lemma add_loop_faults:
  "add_loop E buf n off acc = Inl f \<Longrightarrow> f \<in> {Out_of_bounds, Runtime_error ''Unknown number type''}"
proof (induction E buf n off acc rule: add_loop.induct)
  case (1 E buf n off acc)
  from "1.prems" "1.IH" show ?case
    by (subst (asm) add_loop.simps)
      (auto simp: read_at_def dest: read_number_faults split: if_splits sum.splits)
qed

lemma join_check_faults:
  assumes "join_check r hash m = Inl f"
  shows "f = Out_of_bounds \<and> (\<exists>room. m r = Some room \<and> passwordHash room \<noteq> [] \<and> length (passwordHash room) < 31)"
proof (cases "m r")
  case None
  with assms show ?thesis by (simp add: join_check_def isRoomProtected_unknown)
next
  case (Some room)
  with assms show ?thesis
    by (auto simp: join_check_def isRoomProtected_known checkPasswordHash_def subscript_known
        read_at_def SHA256_DIGEST_LENGTH_def split: if_splits)
qed



end
