(* ===== verification/Server_Loop.thy ===== *)
theory Server_Loop
  imports Server_Requests
begin

text \<open>
  The life of the server of \<open>src/server/Server.cpp\<close> and \<open>src/server/Main.cpp\<close>: its
  construction and initialisation, one turn of the main loop (polling the descriptors,
  accepting a connection, reading and serving every ready client), closing, and
  destruction. Descriptor sets have room for the numbers below \<open>FD_SETSIZE\<close>; using
  another number with one is a fault.
\<close>

section \<open>Initialisation\<close>

text \<open>
  What the calls made at start-up answer, and what uninitialised members happen to hold.
\<close>

record boot_env =
  garbage_buffer :: bytes
  garbage_fd :: int
  garbage_start :: int
  ctx_new_ok :: bool
  min_proto_ok :: bool
  cert_ok :: bool
  key_ok :: bool
  key_matches :: bool
  socket_ret :: int
  setsockopt_ok :: bool
  bind_ok :: bool
  listen_ok :: bool
  start_now :: int
  db_open_error :: "string option"
  room_query :: query

definition Server_new :: "boot_env \<Rightarrow> server" where
  "Server_new B =
     \<lparr>m_StartTime = garbage_start B, m_UniqueCLientCounter = 0, buffer = garbage_buffer B,
      m_MasterSocket = garbage_fd B, m_ClientSocket = [], m_ServerState = NOT_STARTED,
      m_ctx = Ctx_uninit, m_SendHelloMsg = False, m_Readfds = {}, rooms = Map.empty,
      m_Counter = 0, hist = []\<rparr>"

definition SetSendHelloMessagesToNewClients :: "bool \<Rightarrow> server \<Rightarrow> server" where
  "SetSendHelloMessagesToNewClients send s = s\<lparr>m_SendHelloMsg := send\<rparr>"

text \<open>
  An initialisation step ends normally, by a \<open>CommunoException\<close>, by \<open>exit\<close>, or by another
  exception, which \<open>main\<close> does not catch.
\<close>

datatype outcome = Done server | Threw server | Exited | Uncaught fault

definition Server_InitSSL :: "boot_env \<Rightarrow> server \<Rightarrow> outcome" where
  "Server_InitSSL B s =
     (if \<not> ctx_new_ok B then Threw (s\<lparr>m_ctx := Ctx_null\<rparr>)
      else if \<not> min_proto_ok B then Threw (s\<lparr>m_ctx := Ctx_freed\<rparr>)
      else if \<not> cert_ok B then Threw (s\<lparr>m_ctx := Ctx_freed\<rparr>)
      else if \<not> key_ok B then Threw (s\<lparr>m_ctx := Ctx_freed\<rparr>)
      else if \<not> key_matches B then Threw (s\<lparr>m_ctx := Ctx_freed\<rparr>)
      else Done (s\<lparr>m_ctx := Ctx_live\<rparr>))"

definition InitSocket :: "boot_env \<Rightarrow> server \<Rightarrow> outcome" where
  "InitSocket B s =
     (let s1 = s\<lparr>m_MasterSocket := socket_ret B\<rparr>
      in if socket_ret B = - 1 then Threw s1
         else if \<not> setsockopt_ok B then Exited
         else if \<not> bind_ok B then Exited
         else if \<not> listen_ok B then Exited
         else Done (s1\<lparr>m_ServerState := STARTED\<rparr>))"

text \<open>The database object is constructed when it is first used, by opening the file.\<close>

definition Database_new :: "boot_env \<Rightarrow> fault + query" where
  "Database_new B =
     (case db_open_error B of Some msg \<Rightarrow> Inl (Runtime_error msg) | None \<Rightarrow> Inr (room_query B))"

definition InitEntities :: "boot_env \<Rightarrow> server \<Rightarrow> outcome" where
  "InitEntities B s =
     (let s1 = s\<lparr>m_StartTime := start_now B\<rparr>
      in case Database_new B of
           Inl f \<Rightarrow> Uncaught f
         | Inr q \<Rightarrow> Done (s1\<lparr>rooms := loadChatRooms q (rooms s1)\<rparr>))"

text \<open>The program catches the exception of a step, reports it, and goes on.\<close>

definition and_then :: "outcome \<Rightarrow> (server \<Rightarrow> outcome) \<Rightarrow> outcome" where
  "and_then r f =
     (case r of Done s \<Rightarrow> f s | Threw s \<Rightarrow> f s | Exited \<Rightarrow> Exited | Uncaught x \<Rightarrow> Uncaught x)"

definition startup :: "boot_env \<Rightarrow> outcome" where
  "startup B =
     and_then (Server_InitSSL B (SetSendHelloMessagesToNewClients True (Server_new B)))
       (\<lambda>s. and_then (InitSocket B s) (InitEntities B))"

section \<open>Polling\<close>

definition FD_SETSIZE :: int where
  "FD_SETSIZE = 1024"

definition fd_fits :: "int \<Rightarrow> bool" where
  "fd_fits fd = (0 \<le> fd \<and> fd < FD_SETSIZE)"

definition FD_SET :: "int \<Rightarrow> int set \<Rightarrow> fault + int set" where
  "FD_SET fd fds = (if fd_fits fd then Inr (insert fd fds) else Inl Fd_set_overflow)"

definition FD_ISSET :: "int \<Rightarrow> int set \<Rightarrow> fault + bool" where
  "FD_ISSET fd fds = (if fd_fits fd then Inr (fd \<in> fds) else Inl Fd_set_overflow)"

fun pool_loop :: "ClientSocket list \<Rightarrow> int set \<Rightarrow> int \<Rightarrow> fault + int set \<times> int" where
  "pool_loop [] fds max_sd = Inr (fds, max_sd)"
| "pool_loop (c # cs) fds max_sd =
     (case (if 0 < socket c then FD_SET (socket c) fds else Inr fds) of
        Inl f \<Rightarrow> Inl f
      | Inr fds' \<Rightarrow> pool_loop cs fds' (if max_sd < socket c then socket c else max_sd))"

text \<open>A failed \<open>select\<close> leaves the set as it was; otherwise it keeps what is ready.\<close>

definition PoolActivity :: "env \<Rightarrow> server \<Rightarrow> fault + server" where
  "PoolActivity E s =
     (case FD_SET (m_MasterSocket s) {} of
        Inl f \<Rightarrow> Inl f
      | Inr fds0 \<Rightarrow>
          (case pool_loop (m_ClientSocket s) fds0 (m_MasterSocket s) of
             Inl f \<Rightarrow> Inl f
           | Inr (fds, max_sd) \<Rightarrow>
               (let (activity, ready) = select_ret E (hist s) fds
                in Inr (s\<lparr>m_Readfds := (if activity < 0 then fds else ready \<inter> fds),
                          hist := hist s @ [Ev_select (max_sd + 1) fds activity]\<rparr>))))"

section \<open>New connections\<close>

text \<open>
  \<open>SSL_new\<close> refuses a null context; with a context that was freed it is a fault.
\<close>

definition with_ctx :: "env \<Rightarrow> ctx_state \<Rightarrow> fault + env" where
  "with_ctx E ctx =
     (case ctx of
        Ctx_live \<Rightarrow> Inr E
      | Ctx_null \<Rightarrow> Inr (E\<lparr>SSL_new_ret := \<lambda>h. None\<rparr>)
      | Ctx_freed \<Rightarrow> Inl Use_after_free
      | Ctx_uninit \<Rightarrow> Inl Uninitialised)"

text \<open>What follows \<open>accept\<close>: the client object, its handshake, and its place in the vector.\<close>

definition admit :: "env \<Rightarrow> int \<Rightarrow> server \<Rightarrow> fault + server" where
  "admit E new_socket s =
     (let h1 = hist s @ [Ev_set_nonblocking new_socket];
          client = (ClientSocket_new (uninit_ssl E h1) new_socket)\<lparr>clientID := m_UniqueCLientCounter s\<rparr>;
          s1 = s\<lparr>m_UniqueCLientCounter := m_UniqueCLientCounter s + 1\<rparr>
      in case with_ctx E (m_ctx s) of
           Inl f \<Rightarrow> Inl f
         | Inr E' \<Rightarrow>
             (case InitSSL E' client 10 h1 of
                None \<Rightarrow> Inl Diverges
              | Some (ok, client', h2) \<Rightarrow>
                  (if ok then
                     (let s2 = s1\<lparr>m_ClientSocket := m_ClientSocket s1 @ [client'], hist := h2\<rparr>
                      in if m_SendHelloMsg s2 then SendMOTD E client' s2 else Inr s2)
                   else Inr (s1\<lparr>hist := h2 @ [Ev_close new_socket]\<rparr>))))"

definition HandleNewConnections :: "env \<Rightarrow> server \<Rightarrow> fault + server" where
  "HandleNewConnections E s =
     (case FD_ISSET (m_MasterSocket s) (m_Readfds s) of
        Inl f \<Rightarrow> Inl f
      | Inr ready \<Rightarrow>
          (if \<not> ready then Inr s
           else
             (let new_socket = accept_ret E (hist s);
                  s1 = s\<lparr>hist := hist s @ [Ev_accept (m_MasterSocket s) new_socket]\<rparr>
              in if new_socket < 0 then Inr s1 else admit E new_socket s1)))"

section \<open>Requests\<close>

text \<open>
  \<open>SSL_read\<close> into the buffer: a result that is not positive, or at least one and at most
  \<open>sizeof(buffer)\<close> bytes, which replace the front of the buffer.
\<close>

definition SSL_read_call :: "env \<Rightarrow> ssl_ptr option \<Rightarrow> server \<Rightarrow> bytes \<times> server" where
  "SSL_read_call E p s =
     (let bs = (case SSL_read_ret E (hist s) p of None \<Rightarrow> [] | Some bs \<Rightarrow> take BUFFER_SIZE bs)
      in (bs, s\<lparr>buffer := bs @ drop (length bs) (buffer s), hist := hist s @ [Ev_SSL_read p bs]\<rparr>))"

text \<open>\<open>it->close(); it = m_ClientSocket.erase(it);\<close>\<close>

definition drop_client :: "nat \<Rightarrow> server \<Rightarrow> fault + server" where
  "drop_client i s =
     (case vec_erase i (m_ClientSocket s) (close_socket (m_ClientSocket s ! i) (hist s)) of
        Inl f \<Rightarrow> Inl f
      | Inr (cs, h) \<Rightarrow> Inr (s\<lparr>m_ClientSocket := cs, hist := h\<rparr>))"

text \<open>A packet of one byte is answered with bare text, without a header.\<close>

definition serve :: "env \<Rightarrow> nat \<Rightarrow> bytes \<Rightarrow> server \<Rightarrow> fault + server" where
  "serve E i bs s =
     (if 2 \<le> length bs then CallHandler E i (length bs) s
      else
        (let p = ssl (m_ClientSocket s ! i); reply = ascii ''Invalid packet.'';
             r = SSL_write_ret E (hist s) p reply
         in Inr (s\<lparr>hist := hist s @ [Ev_SSL_write p reply r]\<rparr>)))"

lemma serve_frame:
  assumes "serve E i bs s = Inr t"
  shows "handler_frame i s t"
proof (cases "2 \<le> length bs")
  case True
  with assms show ?thesis by (auto simp: serve_def intro: CallHandler_frame)
next
  case False
  with assms have "only_sends s t"
    by (auto simp: serve_def Let_def only_sends_def
        intro!: exI [of _ "[Ev_SSL_write (ssl (m_ClientSocket s ! i)) (ascii ''Invalid packet.'')
          (SSL_write_ret E (hist s) (ssl (m_ClientSocket s ! i)) (ascii ''Invalid packet.''))]"])
  then show ?thesis by (rule only_sends_frame)
qed

lemma drop_client_length:
  assumes "drop_client i s = Inr t" and "i < length (m_ClientSocket s)"
  shows "length (m_ClientSocket t) = length (m_ClientSocket s) - 1"
  using assms by (auto simp: drop_client_def dest: vec_erase_length split: sum.splits)

function process_loop :: "env \<Rightarrow> nat \<Rightarrow> server \<Rightarrow> fault + server" where
  "process_loop E i s =
     (if i < length (m_ClientSocket s) then
        (let c = m_ClientSocket s ! i
         in if m_ServerState s = CLOSING then
              (case drop_client i s of Inl f \<Rightarrow> Inl f | Inr s' \<Rightarrow> process_loop E i s')
            else
              (case FD_ISSET (socket c) (m_Readfds s) of
                 Inl f \<Rightarrow> Inl f
               | Inr ready \<Rightarrow>
                   (if ready then
                      (case SSL_read_call E (ssl c) s of
                         (bs, s1) \<Rightarrow>
                           (if bs = [] then
                              (case drop_client i s1 of Inl f \<Rightarrow> Inl f | Inr s' \<Rightarrow> process_loop E i s')
                            else
                              (case serve E i bs s1 of Inl f \<Rightarrow> Inl f | Inr s' \<Rightarrow> process_loop E (Suc i) s')))
                    else process_loop E (Suc i) s)))
      else Inr s)"
  by pat_completeness auto
termination
proof (relation "measure (\<lambda>(E, i, s). length (m_ClientSocket s) - i)", goal_cases)
  case 1
  then show ?case by simp
next
  case (2 E i s c s')
  from drop_client_length [OF 2(4)] 2(1) show ?case by simp
next
  case (3 E i s c ready bs s1 s')
  then have "m_ClientSocket s1 = m_ClientSocket s" by (auto simp: SSL_read_call_def Let_def)
  with drop_client_length [of i s1 s'] 3 show ?case by simp
next
  case (4 E i s c ready bs s1 s')
  then have "m_ClientSocket s1 = m_ClientSocket s" by (auto simp: SSL_read_call_def Let_def)
  moreover from 4 have "length (m_ClientSocket s') = length (m_ClientSocket s1)"
    by (auto dest: serve_frame handler_frame_fields(9))
  ultimately show ?case using 4(1) by simp
next
  case (5 E i s c ready)
  then show ?case by simp
qed

declare process_loop.simps [simp del]

definition ProcessRequests :: "env \<Rightarrow> server \<Rightarrow> fault + server" where
  "ProcessRequests E s = process_loop E 0 s"

section \<open>Closing\<close>

definition ClosingRequested :: "server \<Rightarrow> server" where
  "ClosingRequested s =
     s\<lparr>m_ServerState := CLOSING, hist := fold close_socket (m_ClientSocket s) (hist s)\<rparr>"

definition CloseServer :: "server \<Rightarrow> server" where
  "CloseServer s = s\<lparr>m_ServerState := CLOSED\<rparr>"

text \<open>The destructor: the context, then the vector's elements in order.\<close>

fun destroy_all :: "ClientSocket list \<Rightarrow> history \<Rightarrow> fault + history" where
  "destroy_all [] h = Inr h"
| "destroy_all (c # cs) h = (case destroy c h of Inl f \<Rightarrow> Inl f | Inr h' \<Rightarrow> destroy_all cs h')"

definition Server_destroy :: "server \<Rightarrow> fault + history" where
  "Server_destroy s =
     (case m_ctx s of
        Ctx_freed \<Rightarrow> Inl Use_after_free
      | Ctx_uninit \<Rightarrow> Inl Uninitialised
      | _ \<Rightarrow> destroy_all (m_ClientSocket s) (hist s))"

section \<open>The main loop\<close>

definition and_next :: "fault + server \<Rightarrow> (server \<Rightarrow> fault + server) \<Rightarrow> fault + server" where
  "and_next r f = (case r of Inl x \<Rightarrow> Inl x | Inr s \<Rightarrow> f s)"

text \<open>One turn; \<open>closing\<close> is the flag that the signal handlers set.\<close>

definition main_turn :: "env \<Rightarrow> bool \<Rightarrow> server \<Rightarrow> fault + server" where
  "main_turn E closing s =
     and_next (PoolActivity E s) (\<lambda>s.
     and_next (HandleNewConnections E s) (\<lambda>s.
     and_next (ProcessRequests E s) (\<lambda>s.
       (let s1 = (if closing then ClosingRequested s else s)
        in Inr (if m_ServerState s1 = CLOSING then CloseServer s1 else s1)))))"

text \<open>
  A configuration is the flag and the server. A signal may arrive at any time; the flag is
  read once in a turn, so a signal during a turn is one before or after it.
\<close>

type_synonym config = "bool \<times> server"

inductive step :: "env \<Rightarrow> config \<Rightarrow> config \<Rightarrow> bool" for E :: env where
  signal: "step E (closing, s) (True, s)"
| turn: "m_ServerState s \<noteq> CLOSED \<Longrightarrow> main_turn E closing s = Inr t \<Longrightarrow> step E (closing, s) (closing, t)"

inductive_cases stepE: "step E c d"

end
