(* ===== verification/Server_Runs.thy ===== *)
theory Server_Runs
  imports Server_Loop
begin

text \<open>
  Runs of the server. The locale \<open>loop_invariant\<close> is the contract between the operations of
  one turn and a property of the server state: what every operation keeps, every turn
  keeps. Its interpretations give the invariant of the connected clients, the value of the
  counter, the server state, and the life of the TLS objects. The last sections are about
  single turns: who is read, what happens when a client hangs up, and how the server ends.
\<close>

section \<open>What a trace says\<close>

fun reads_of :: "event \<Rightarrow> (ssl_ptr option \<times> bytes) list" where
  "reads_of (Ev_SSL_read p bs) = [(p, bs)]"
| "reads_of e = []"

definition reads :: "history \<Rightarrow> (ssl_ptr option \<times> bytes) list" where
  "reads h = concat (map reads_of h)"

lemma reads_simps [simp]:
  "reads [] = []" "reads (e # h) = reads_of e @ reads h" "reads (a @ b) = reads a @ reads b"
  by (simp_all add: reads_def)

lemma reads_NilI: "(\<And>e. e \<in> set tr \<Longrightarrow> reads_of e = []) \<Longrightarrow> reads tr = []"
  by (simp add: reads_def)

lemma talk_no_reads: "list_all talk_event tr \<Longrightarrow> reads tr = []"
proof (rule reads_NilI)
  fix e
  assume "list_all talk_event tr" and "e \<in> set tr"
  then have "talk_event e" by (simp add: list_all_iff)
  then show "reads_of e = []" by (cases e) simp_all
qed

lemma quiet_no_reads: "quiet p tr \<Longrightarrow> reads tr = []"
proof (rule reads_NilI)
  fix e
  assume "quiet p tr" and "e \<in> set tr"
  then have "quiet_event p e" by (simp add: list_all_iff)
  then show "reads_of e = []" by (cases e) simp_all
qed

section \<open>The operations, by what they change\<close>

definition writes_to :: "ssl_ptr option \<Rightarrow> history \<Rightarrow> bool" where
  "writes_to p tr \<longleftrightarrow> (\<forall>e \<in> set tr. \<exists>d r. e = Ev_SSL_write p d r)"

lemma writes_to_talk: "writes_to p tr \<Longrightarrow> list_all talk_event tr"
  by (auto simp: writes_to_def list_all_iff)

lemma motd_loop_trace:
  "motd_loop E p d h = Inr h' \<Longrightarrow> \<exists>tr. writes_to p tr \<and> h' = h @ tr"
proof (induction E p d h rule: motd_loop.induct)
  case (1 E p d h)
  let ?w = "SSL_write_ret E h p d"
  let ?h1 = "h @ [Ev_SSL_write p d ?w]"
  from "1.prems" consider "h' = h" | "h' = ?h1"
    | "d \<noteq> []" "\<not> ?w \<le> 0" "\<not> length d < nat ?w" "motd_loop E p (drop (nat ?w) d) ?h1 = Inr h'"
    by (subst (asm) motd_loop.simps) (auto simp: Let_def split: if_splits)
  then show ?case
  proof cases
    case 3
    from "1.IH" [OF 3(1) refl refl 3(2,3,4)] obtain tr where "writes_to p tr" "h' = ?h1 @ tr"
      by blast
    then show ?thesis by (intro exI [of _ "Ev_SSL_write p d ?w # tr"]) (simp add: writes_to_def)
  qed (auto simp: writes_to_def intro: exI [of _ "[]"] exI [of _ "[Ev_SSL_write p d ?w]"])
qed

lemma SendMOTD_trace:
  "SendMOTD E c s = Inr t \<Longrightarrow> \<exists>tr. writes_to (ssl c) tr \<and> t = s\<lparr>hist := hist s @ tr\<rparr>"
  by (auto simp: SendMOTD_def dest!: motd_loop_trace split: sum.splits)

lemma PoolActivity_eq:
  assumes "PoolActivity E s = Inr t"
  obtains ready fds n r where "t = s\<lparr>m_Readfds := ready, hist := hist s @ [Ev_select n fds r]\<rparr>"
  using assms that by (auto simp: PoolActivity_def Let_def split: sum.splits prod.splits)

lemma vec_erase_Inr:
  assumes "vec_erase i v h = Inr (v', h')" and "i < length v"
  shows "v' = take i v @ drop (Suc i) v \<and> (\<exists>tr. h' = h @ tr \<and> (tr = release_events (v ! i) \<or> tr = [] \<and> ssl (v ! i) = None))"
proof (cases "Suc i < length v")
  case True
  with assms(1) show ?thesis by (auto simp: vec_erase_inner)
next
  case False
  with assms(2) have last: "Suc i = length v" by simp
  with assms(1) have "ssl (v ! i) = None"
    using vec_erase_last [of i v] by (cases "ssl (v ! i)") auto
  with assms last show ?thesis
    by (simp add: vec_erase_def drop_at_last destroy_def)
qed

lemma drop_client_eq:
  assumes "drop_client i s = Inr t" and "i < length (m_ClientSocket s)"
  obtains tr where "reads tr = []"
    "t = s\<lparr>m_ClientSocket := take i (m_ClientSocket s) @ drop (Suc i) (m_ClientSocket s),
           hist := hist s @ tr\<rparr>"
    "tr = close_socket (m_ClientSocket s ! i) [] @ release_events (m_ClientSocket s ! i)
       \<or> ssl (m_ClientSocket s ! i) = None \<and> tr = close_socket (m_ClientSocket s ! i) []"
proof -
  let ?c = "m_ClientSocket s ! i"
  from assms(1) obtain cs h where
    e: "vec_erase i (m_ClientSocket s) (close_socket ?c (hist s)) = Inr (cs, h)"
    and t: "t = s\<lparr>m_ClientSocket := cs, hist := h\<rparr>"
    by (auto simp: drop_client_def split: sum.splits)
  from vec_erase_Inr [OF e assms(2)] obtain tr where
    "cs = take i (m_ClientSocket s) @ drop (Suc i) (m_ClientSocket s)"
    "h = close_socket ?c (hist s) @ tr" "tr = release_events ?c \<or> tr = [] \<and> ssl ?c = None"
    by blast
  with t show thesis
    by (intro that [of "[Ev_shutdown (socket ?c), Ev_close (socket ?c)] @ tr"])
      (auto simp: close_socket_def release_events_def split: option.split)
qed

lemma SSL_read_call_eq:
  assumes "SSL_read_call E p s = (bs, s1)"
  shows "s1 = s\<lparr>buffer := bs @ drop (length bs) (buffer s), hist := hist s @ [Ev_SSL_read p bs]\<rparr>"
    and "length bs \<le> BUFFER_SIZE"
  using assms by (auto simp: SSL_read_call_def Let_def split: option.splits)

text \<open>
  A connection attempt: nobody new, or one new client at the end of the vector, with the
  next number, the handshake done and not in any room.
\<close>

lemma admit_cases:
  assumes "admit E fd s = Inr t"
  obtains E' ok c' h2 w where "with_ctx E (m_ctx s) = Inr E'"
    "InitSSL E' ((ClientSocket_new (uninit_ssl E (hist s @ [Ev_set_nonblocking fd])) fd)
       \<lparr>clientID := m_UniqueCLientCounter s\<rparr>) 10 (hist s @ [Ev_set_nonblocking fd]) = Some (ok, c', h2)"
    "ok \<longrightarrow> writes_to (ssl c') w \<and> t = s\<lparr>m_UniqueCLientCounter := m_UniqueCLientCounter s + 1,
       hist := h2 @ w, m_ClientSocket := m_ClientSocket s @ [c']\<rparr>"
    "\<not> ok \<longrightarrow> t = s\<lparr>m_UniqueCLientCounter := m_UniqueCLientCounter s + 1, hist := h2 @ [Ev_close fd]\<rparr>"
proof -
  let ?h1 = "hist s @ [Ev_set_nonblocking fd]"
  let ?c = "(ClientSocket_new (uninit_ssl E ?h1) fd)\<lparr>clientID := m_UniqueCLientCounter s\<rparr>"
  let ?s1 = "s\<lparr>m_UniqueCLientCounter := m_UniqueCLientCounter s + 1\<rparr>"
  from assms obtain E' where ctx: "with_ctx E (m_ctx s) = Inr E'"
    by (cases "with_ctx E (m_ctx s)") (simp_all add: admit_def)
  with assms obtain ok c' h2 where init: "InitSSL E' ?c 10 ?h1 = Some (ok, c', h2)"
    by (cases "InitSSL E' ?c 10 ?h1") (auto simp: admit_def Let_def)
  show thesis
  proof (cases ok)
    case False
    with assms ctx init show thesis
      by (intro that [OF ctx init, of "[]"]) (simp_all add: admit_def Let_def)
  next
    case True
    define s2 where "s2 = ?s1\<lparr>m_ClientSocket := m_ClientSocket s @ [c'], hist := h2\<rparr>"
    from True assms ctx init have "(if m_SendHelloMsg s then SendMOTD E c' s2 else Inr s2) = Inr t"
      by (simp add: admit_def Let_def s2_def split: if_splits)
    then have "\<exists>w. writes_to (ssl c') w \<and> t = s2\<lparr>hist := hist s2 @ w\<rparr>"
      by (cases "m_SendHelloMsg s") (simp_all add: SendMOTD_trace exI [of _ "[]"] writes_to_def [of _ "[]"])
    then obtain w where "writes_to (ssl c') w" "t = s2\<lparr>hist := hist s2 @ w\<rparr>" by blast
    with True show thesis by (intro that [OF ctx init, of w]) (simp_all add: s2_def)
  qed
qed

lemma admit_eq:
  assumes "admit E fd s = Inr t"
  obtains (refused) tr where "reads tr = []"
      "t = s\<lparr>m_UniqueCLientCounter := m_UniqueCLientCounter s + 1, hist := hist s @ tr\<rparr>"
    | (joined) tr p where "reads tr = []"
      "t = s\<lparr>m_UniqueCLientCounter := m_UniqueCLientCounter s + 1, hist := hist s @ tr,
             m_ClientSocket := m_ClientSocket s @
               [(ClientSocket_new (Some p) fd)\<lparr>clientID := m_UniqueCLientCounter s, sslEnabled := True\<rparr>]\<rparr>"
proof -
  let ?h1 = "hist s @ [Ev_set_nonblocking fd]"
  from assms obtain E' ok c' h2 w where ctx: "with_ctx E (m_ctx s) = Inr E'"
    and init: "InitSSL E' ((ClientSocket_new (uninit_ssl E ?h1) fd)\<lparr>clientID := m_UniqueCLientCounter s\<rparr>) 10 ?h1 =
      Some (ok, c', h2)"
    and yes: "ok \<longrightarrow> writes_to (ssl c') w \<and> t = s\<lparr>m_UniqueCLientCounter := m_UniqueCLientCounter s + 1,
       hist := h2 @ w, m_ClientSocket := m_ClientSocket s @ [c']\<rparr>"
    and no: "\<not> ok \<longrightarrow> t = s\<lparr>m_UniqueCLientCounter := m_UniqueCLientCounter s + 1, hist := h2 @ [Ev_close fd]\<rparr>"
    by (rule admit_cases)
  have "\<exists>tr. reads tr = [] \<and> h2 = hist s @ tr
      \<and> (ok \<longrightarrow> (\<exists>p. c' = (ClientSocket_new (Some p) fd)\<lparr>clientID := m_UniqueCLientCounter s, sslEnabled := True\<rparr>))"
    using init
    by (rule InitSSL_trace) (auto simp: ClientSocket_new_def dest: quiet_no_reads)
  then obtain tr where tr: "reads tr = []" "h2 = hist s @ tr"
    and c': "ok \<longrightarrow> (\<exists>p. c' = (ClientSocket_new (Some p) fd)\<lparr>clientID := m_UniqueCLientCounter s, sslEnabled := True\<rparr>)"
    by blast
  show thesis
  proof (cases ok)
    case False
    with no tr show thesis by (intro refused [of "tr @ [Ev_close fd]"]) auto
  next
    case True
    with c' obtain p where
      "c' = (ClientSocket_new (Some p) fd)\<lparr>clientID := m_UniqueCLientCounter s, sslEnabled := True\<rparr>"
      by blast
    with True tr yes show thesis
      by (intro joined [of "tr @ w" p]) (auto intro: talk_no_reads writes_to_talk)
  qed
qed

lemma HandleNewConnections_eq:
  assumes "HandleNewConnections E s = Inr t"
  obtains (idle) "t = s"
    | (failed) fd where "t = s\<lparr>hist := hist s @ [Ev_accept (m_MasterSocket s) fd]\<rparr>"
    | (admitted) fd where "0 \<le> fd"
      "admit E fd (s\<lparr>hist := hist s @ [Ev_accept (m_MasterSocket s) fd]\<rparr>) = Inr t"
  using assms unfolding HandleNewConnections_def Let_def
  by (auto simp: not_less split: sum.splits if_splits)

section \<open>From operations to turns\<close>

locale loop_invariant =
  fixes E :: env and P :: "server \<Rightarrow> bool"
  assumes pool: "PoolActivity E s = Inr t \<Longrightarrow> P s \<Longrightarrow> P t"
    and connect: "HandleNewConnections E s = Inr t \<Longrightarrow> P s \<Longrightarrow> P t"
    and request: "i < length (m_ClientSocket s) \<Longrightarrow> SSL_read_call E (ssl (m_ClientSocket s ! i)) s = (bs, s1)
      \<Longrightarrow> bs \<noteq> [] \<Longrightarrow> serve E i bs s1 = Inr t \<Longrightarrow> P s \<Longrightarrow> P t"
    and hangup: "i < length (m_ClientSocket s) \<Longrightarrow> SSL_read_call E (ssl (m_ClientSocket s ! i)) s = ([], s1)
      \<Longrightarrow> drop_client i s1 = Inr t \<Longrightarrow> P s \<Longrightarrow> P t"
    and discard: "i < length (m_ClientSocket s) \<Longrightarrow> m_ServerState s = CLOSING
      \<Longrightarrow> drop_client i s = Inr t \<Longrightarrow> P s \<Longrightarrow> P t"
begin

lemma process_loop_P: "process_loop E' i s = Inr t \<Longrightarrow> E' = E \<Longrightarrow> P s \<Longrightarrow> P t"
proof (induction E' i s rule: process_loop.induct)
  case (1 E' i s)
  let ?c = "m_ClientSocket s ! i"
  obtain bs s1 where rd: "SSL_read_call E (ssl ?c) s = (bs, s1)" by fastforce
  show ?case
  proof (cases "i < length (m_ClientSocket s)")
    case False
    with "1.prems" show ?thesis by (simp add: process_loop.simps)
  next
    case i: True
    note IH = "1.IH" [OF i refl] and run = "1.prems"(1) [unfolded process_loop.simps [of E' i s] Let_def]
    note E = "1.prems"(2) and P = "1.prems"(3)
    show ?thesis
    proof (cases "m_ServerState s = CLOSING")
      case True
      with run i obtain s' where "drop_client i s = Inr s'" "process_loop E' i s' = Inr t"
        by (auto split: sum.splits)
      with IH(1) [OF True] E discard [OF i True] P show ?thesis by blast
    next
      case not_closing: False
      with run i obtain ready where isset: "FD_ISSET (socket ?c) (m_Readfds s) = Inr ready"
        by (cases "FD_ISSET (socket ?c) (m_Readfds s)") auto
      note IH = IH(2-4) [OF not_closing isset]
      consider (skip) "\<not> ready" "process_loop E' (Suc i) s = Inr t"
        | (gone) s' where ready "bs = []" "drop_client i s1 = Inr s'" "process_loop E' i s' = Inr t"
        | (served) s' where ready "bs \<noteq> []" "serve E i bs s1 = Inr s'" "process_loop E' (Suc i) s' = Inr t"
        using run i not_closing isset rd E by (auto split: if_splits sum.splits)
      then show ?thesis
      proof cases
        case skip
        with IH(3) E P show ?thesis by blast
      next
        case gone
        with hangup [OF i _ gone(3) P] rd have "P s'" by simp
        with IH(1) [OF gone(1) _ gone(2) gone(3)] gone(4) rd E show ?thesis by simp
      next
        case served
        with request [OF i rd _ served(3) P] have "P s'" by simp
        with IH(2) [OF served(1) _ served(2)] served(3,4) rd E show ?thesis by simp
      qed
    qed
  qed
qed

lemma ProcessRequests_P: "ProcessRequests E s = Inr t \<Longrightarrow> P s \<Longrightarrow> P t"
  unfolding ProcessRequests_def by (rule process_loop_P [OF _ refl])

lemma main_turn_split:
  assumes "main_turn E closing s = Inr t" and "P s"
  obtains u where "P u"
    "t = (let s1 = (if closing then ClosingRequested u else u)
          in if m_ServerState s1 = CLOSING then CloseServer s1 else s1)"
proof -
  from assms(1) obtain a b u where "PoolActivity E s = Inr a" "HandleNewConnections E a = Inr b"
    "ProcessRequests E b = Inr u"
    and t: "t = (let s1 = (if closing then ClosingRequested u else u)
          in if m_ServerState s1 = CLOSING then CloseServer s1 else s1)"
    unfolding main_turn_def and_next_def Let_def by (auto split: sum.splits)
  with assms(2) have "P u" by (blast intro: pool connect ProcessRequests_P)
  from this t show thesis by (rule that)
qed

end

locale turn_invariant = loop_invariant +
  assumes closing_kept: "P s \<Longrightarrow> P (ClosingRequested s)"
    and close_kept: "P s \<Longrightarrow> P (CloseServer s)"
begin

lemma main_turn_P: "main_turn E closing s = Inr t \<Longrightarrow> P s \<Longrightarrow> P t"
proof (erule main_turn_split, assumption)
  fix u
  assume u: "P u" and t: "t = (let s1 = (if closing then ClosingRequested u else u)
    in if m_ServerState s1 = CLOSING then CloseServer s1 else s1)"
  have "P (if closing then ClosingRequested u else u)"
    using closing_kept [OF u] u by simp
  from close_kept [OF this] this show "P t" unfolding t Let_def by simp
qed

end

sublocale turn_invariant \<subseteq> invariant_system "step E" "\<lambda>c. P (snd c)"
  by unfold_locales (auto elim!: stepE intro: main_turn_P)

section \<open>The server state\<close>

text \<open>
  The two ways a ready client is dealt with, by what they change: its request is served,
  or it is dropped from the vector.
\<close>

lemma request_effect:
  assumes "i < length (m_ClientSocket s)" and "SSL_read_call E p s = (bs, s1)"
    and "serve E i bs s1 = Inr t"
  shows "handler_frame i s1 t" and "length bs \<le> BUFFER_SIZE"
    and "s1 = s\<lparr>buffer := bs @ drop (length bs) (buffer s), hist := hist s @ [Ev_SSL_read p bs]\<rparr>"
  using serve_frame [OF assms(3)] SSL_read_call_eq [OF assms(2)] by auto

lemma hangup_effect:
  assumes "i < length (m_ClientSocket s)" and "SSL_read_call E p s = ([], s1)"
    and "drop_client i s1 = Inr t"
  obtains tr where "reads tr = []"
    "t = s\<lparr>m_ClientSocket := take i (m_ClientSocket s) @ drop (Suc i) (m_ClientSocket s),
           hist := hist s @ [Ev_SSL_read p []] @ tr\<rparr>"
    "tr = close_socket (m_ClientSocket s ! i) [] @ release_events (m_ClientSocket s ! i)
       \<or> ssl (m_ClientSocket s ! i) = None \<and> tr = close_socket (m_ClientSocket s ! i) []"
proof -
  from SSL_read_call_eq(1) [OF assms(2)] have s1: "s1 = s\<lparr>hist := hist s @ [Ev_SSL_read p []]\<rparr>"
    by simp
  then have "i < length (m_ClientSocket s1)" using assms(1) by simp
  from drop_client_eq [OF assms(3) this] obtain tr where "reads tr = []"
    "t = s1\<lparr>m_ClientSocket := take i (m_ClientSocket s1) @ drop (Suc i) (m_ClientSocket s1), hist := hist s1 @ tr\<rparr>"
    "tr = close_socket (m_ClientSocket s1 ! i) [] @ release_events (m_ClientSocket s1 ! i)
       \<or> ssl (m_ClientSocket s1 ! i) = None \<and> tr = close_socket (m_ClientSocket s1 ! i) []" .
  then show thesis by (intro that [of tr]) (simp_all add: s1)
qed

interpretation keeps_state: loop_invariant E "\<lambda>s. m_ServerState s = st" for E st
proof (unfold_locales, goal_cases)
  case (1 s t)
  then show ?case by (elim PoolActivity_eq) simp
next
  case (2 s t)
  from 2(1) show ?case
    by (rule HandleNewConnections_eq) (use 2(2) in \<open>auto elim!: admit_eq\<close>)
next
  case (3 i s bs s1 t)
  have "m_ServerState t = m_ServerState s1"
    by (rule handler_frame_fields(5) [OF request_effect(1) [OF 3(1,2,4)]])
  with 3(5) show ?case by (simp add: request_effect(3) [OF 3(1,2,4)])
next
  case (4 i s s1 t)
  from 4(1-3) show ?case by (rule hangup_effect) (simp add: 4(4))
next
  case (5 i s t)
  from 5(3,1) show ?case by (rule drop_client_eq) (simp add: 5(4))
qed

lemma fold_close_socket:
  "fold close_socket cs h = h @ concat (map (\<lambda>c. [Ev_shutdown (socket c), Ev_close (socket c)]) cs)"
  by (induction cs arbitrary: h) (simp_all add: close_socket_def)

section \<open>The connected clients\<close>

text \<open>
  Client numbers are taken from a 64-bit counter. Each of them costs a call of \<open>accept\<close>,
  so the counter cannot wrap before \<open>2\<^sup>6\<^sup>4\<close> calls have been made.
\<close>

definition clients_good :: "server \<Rightarrow> bool" where
  "clients_good s \<longleftrightarrow> (length (hist s) < 2 ^ 64 \<longrightarrow>
     server_inv s \<and> unat (m_UniqueCLientCounter s) \<le> length (hist s))"

lemma u64_next:
  fixes n :: u64
  assumes "Suc (unat n) < 2 ^ 64"
  shows "unat (n + 1) = Suc (unat n)" and "n < n + 1" and "x < n \<Longrightarrow> x < n + 1"
proof -
  have "Suc (unat n) mod 2 ^ 64 = Suc (unat n)" using assms by (rule mod_less)
  then show "unat (n + 1) = Suc (unat n)" by (simp add: unat_word_ariths)
  then show "n < n + 1" and "x < n \<Longrightarrow> x < n + 1" by (simp_all add: word_less_nat_alt)
qed

lemma ids_ok_refused: "Suc (unat n) < 2 ^ 64 \<Longrightarrow> ids_ok n cs \<Longrightarrow> ids_ok (n + 1) cs"
  by (auto simp: ids_ok_def u64_next(3))

lemma ids_ok_joined:
  "Suc (unat n) < 2 ^ 64 \<Longrightarrow> ids_ok n cs \<Longrightarrow> clientID c = n \<Longrightarrow> ids_ok (n + 1) (cs @ [c])"
  by (auto simp: ids_ok_def u64_next sorted_wrt_append)

lemma ids_ok_erase:
  assumes "ids_ok n cs"
  shows "ids_ok n (take i cs @ drop (Suc i) cs)"
proof (cases "i < length cs")
  case True
  then have "cs = take i cs @ cs ! i # drop (Suc i) cs" by (rule id_take_nth_drop)
  with assms have "ids_ok n (take i cs @ cs ! i # drop (Suc i) cs)" by simp
  then show ?thesis by (simp add: ids_ok_def sorted_wrt_append)
qed (use assms in simp)

lemma server_inv_erase:
  assumes "server_inv s"
  shows "server_inv (s\<lparr>m_ClientSocket := take i (m_ClientSocket s) @ drop (Suc i) (m_ClientSocket s), hist := h\<rparr>)"
  using assms ids_ok_erase
  by (auto simp: server_inv_def list_all_iff dest: in_set_takeD in_set_dropD)

lemma server_inv_received:
  assumes "server_inv s" and "length bs \<le> BUFFER_SIZE"
  shows "server_inv (s\<lparr>buffer := bs @ drop (length bs) (buffer s), hist := h\<rparr>)"
  using assms by (simp add: server_inv_def)

lemma client_ok_new:
  "0 \<le> fd \<Longrightarrow> client_ok m ((ClientSocket_new (Some p) fd)\<lparr>clientID := n, sslEnabled := True\<rparr>)"
  by (simp add: client_ok_def ClientSocket_new_def)

lemma clients_good_admit:
  assumes "admit E fd (s\<lparr>hist := hist s @ [e]\<rparr>) = Inr t" and "0 \<le> fd" and "clients_good s"
  shows "clients_good t"
  unfolding clients_good_def
proof
  assume small: "length (hist t) < 2 ^ 64"
  let ?n = "m_UniqueCLientCounter s"
  have grown: "length (hist s) < length (hist t)"
    using assms(1) by (rule admit_eq) simp_all
  with small assms(3) have inv: "server_inv s" and le: "unat ?n \<le> length (hist s)"
    by (auto simp: clients_good_def)
  with grown small have fits: "Suc (unat ?n) < 2 ^ 64" by linarith
  have n: "unat (m_UniqueCLientCounter t) = Suc (unat ?n)"
    using assms(1) by (rule admit_eq) (simp_all add: u64_next(1) [OF fits])
  have "server_inv t"
    using assms(1)
  proof (rule admit_eq, goal_cases)
    case (1 tr)
    with inv show ?thesis by (simp add: server_inv_def ids_ok_refused [OF fits])
  next
    case (2 tr p)
    with inv assms(2) show ?thesis
      by (simp add: server_inv_def client_ok_new ids_ok_joined [OF fits])
  qed
  with n le grown show "server_inv t \<and> unat (m_UniqueCLientCounter t) \<le> length (hist t)" by simp
qed

lemma clients_goodI:
  assumes "clients_good s" and "length (hist s) \<le> length (hist t)"
    and "server_inv s \<Longrightarrow> server_inv t" and "m_UniqueCLientCounter t = m_UniqueCLientCounter s"
  shows "clients_good t"
  using assms by (auto simp: clients_good_def)

lemma handler_frame_hist: "handler_frame i s t \<Longrightarrow> length (hist s) \<le> length (hist t)"
  by (auto simp: handler_frame_def)

interpretation clients: turn_invariant E clients_good for E
proof (unfold_locales, goal_cases)
  case (1 s t)
  from 1(1) show ?case
    by (rule PoolActivity_eq) (rule clients_goodI [OF 1(2)], simp_all add: server_inv_def)
next
  case (2 s t)
  from 2(1) show ?case
  proof (rule HandleNewConnections_eq, goal_cases)
    case (2 fd)
    then show ?case by (intro clients_goodI [OF \<open>clients_good s\<close>]) (simp_all add: server_inv_def)
  qed (use 2(2) in \<open>auto intro: clients_good_admit\<close>)
next
  case (3 i s bs s1 t)
  note eff = request_effect [OF 3(1,2,4)]
  have "server_inv t" if "server_inv s"
    using handler_frame_inv [OF eff(1)] server_inv_received [OF that eff(2)] 3(1)
    by (simp add: eff(3))
  with 3(5) handler_frame_hist [OF eff(1)] handler_frame_fields(2) [OF eff(1)] show ?case
    by (intro clients_goodI [OF 3(5)]) (simp_all add: eff(3))
next
  case (4 i s s1 t)
  from 4(1-3) show ?case
    by (rule hangup_effect) (rule clients_goodI [OF 4(4)], simp_all add: server_inv_erase)
next
  case (5 i s t)
  from 5(3,1) show ?case
    by (rule drop_client_eq) (rule clients_goodI [OF 5(4)], simp_all add: server_inv_erase)
next
  case (6 s)
  show ?case
    by (rule clients_goodI [OF 6]) (simp_all add: ClosingRequested_def fold_close_socket server_inv_def)
next
  case (7 s)
  show ?case by (rule clients_goodI [OF 7]) (simp_all add: CloseServer_def server_inv_def)
qed

section \<open>The counter\<close>

definition is_increment :: "endian \<Rightarrow> bytes \<Rightarrow> bool" where
  "is_increment e bs \<longleftrightarrow> 2 \<le> length bs \<and> header_opcode e bs = opcode CMSG_INCREMENT_COUNTER"

definition increments :: "endian \<Rightarrow> history \<Rightarrow> nat" where
  "increments e h = length (filter (is_increment e) (map snd (reads h)))"

lemma increments_append [simp]: "increments e (a @ b) = increments e a + increments e b"
  and increments_no_reads: "reads h = [] \<Longrightarrow> increments e h = 0"
  by (simp_all add: increments_def)

lemma CallHandler_counter:
  assumes "CallHandler E i n s = Inr t"
  shows "m_Counter t = m_Counter s +
    (if header_opcode (host E) (buffer s) = opcode CMSG_INCREMENT_COUNTER then 1 else 0)"
proof -
  have join: "m_Counter t = m_Counter s" if "CallHandlerJoinRoom E i 2 n s = Inr t" for t
    using that by (auto simp: CallHandlerJoinRoom_def join_reply_def Let_def split: sum.splits if_splits)
  show ?thesis
    using assms join unfolding CallHandler_def Let_def with_payload_def
    by (auto split: if_splits sum.splits
        simp: CallHandlerPong_def CallHandlerGetCounter_def CallHandlerGetChatRooms_def
          SendMsgToSocket_def incrementCounter_def
          only_sends_fields(4) [OF only_sends_echo] only_sends_fields(4) [OF only_sends_broadcast]
          only_sends_fields(4) [OF only_sends_client_list] only_sends_fields(4) [OF only_sends_uptime]
          only_sends_fields(4) [OF only_sends_say]
        dest: only_sends_fields(4) [OF only_sends_add] only_sends_fields(4) [OF only_sends_msg_to_client]
          only_sends_fields(4) [OF only_sends_room_info])
qed

lemma header_opcode_front: "2 \<le> length bs \<Longrightarrow> header_opcode e (bs @ rest) = header_opcode e bs"
  by (simp add: header_opcode_def)

lemma serve_counter:
  assumes "serve E i bs s = Inr t" and "buffer s = bs @ rest"
  shows "m_Counter t = m_Counter s + of_nat (increments (host E) [Ev_SSL_read p bs])"
  using assms
  by (auto simp: serve_def Let_def increments_def is_increment_def header_opcode_front
      dest!: CallHandler_counter split: if_splits)

lemma handler_frame_increments: "handler_frame i s t \<Longrightarrow> increments e (hist t) = increments e (hist s)"
  by (auto simp: handler_frame_def increments_no_reads talk_no_reads)

definition counter_good :: "env \<Rightarrow> u64 \<Rightarrow> server \<Rightarrow> bool" where
  "counter_good E c0 s \<longleftrightarrow> m_Counter s = c0 + of_nat (increments (host E) (hist s))"

lemma counter_goodI:
  assumes "counter_good E c0 s" and "hist t = hist s @ tr" and "reads tr = []" and "m_Counter t = m_Counter s"
  shows "counter_good E c0 t"
  using assms by (simp add: counter_good_def increments_no_reads)

interpretation counter: turn_invariant E "counter_good E c0" for E c0
proof (unfold_locales, goal_cases)
  case (1 s t)
  from 1(1) show ?case by (rule PoolActivity_eq) (rule counter_goodI [OF 1(2)], auto)
next
  case (2 s t)
  from 2(1) show ?case
  proof (rule HandleNewConnections_eq, goal_cases)
    case (2 fd)
    then show ?case by (intro counter_goodI [OF \<open>counter_good E c0 s\<close>]) auto
  next
    case (3 fd)
    from 3(2) show ?case
      by (rule admit_eq) (use \<open>counter_good E c0 s\<close> in \<open>simp_all add: counter_good_def increments_def\<close>)
  qed (use 2(2) in simp)
next
  case (3 i s bs s1 t)
  note eff = request_effect [OF 3(1,2,4)]
  have "m_Counter t = m_Counter s1 + of_nat (increments (host E) [Ev_SSL_read (ssl (m_ClientSocket s ! i)) bs])"
    by (rule serve_counter [OF 3(4)]) (simp add: eff(3))
  with 3(5) handler_frame_increments [OF eff(1), of "host E"] show ?case
    by (simp add: counter_good_def eff(3))
next
  case (4 i s s1 t)
  from 4(1-3) show ?case
  proof (rule hangup_effect)
    fix tr
    assume "reads tr = []"
      "t = s\<lparr>m_ClientSocket := take i (m_ClientSocket s) @ drop (Suc i) (m_ClientSocket s),
             hist := hist s @ [Ev_SSL_read (ssl (m_ClientSocket s ! i)) []] @ tr\<rparr>"
    with 4(4) show ?case
      by (simp add: counter_good_def increments_def is_increment_def)
  qed
next
  case (5 i s t)
  from 5(3,1) show ?case by (rule drop_client_eq) (rule counter_goodI [OF 5(4)], auto)
next
  case (6 s)
  have "reads (concat (map (\<lambda>c. [Ev_shutdown (socket c), Ev_close (socket c)]) cs)) = []"
    for cs :: "ClientSocket list"
    by (induction cs) simp_all
  with 6 show ?case
    by (intro counter_goodI [OF 6]) (auto simp: ClosingRequested_def fold_close_socket)
next
  case (7 s)
  show ?case by (rule counter_goodI [OF 7, where tr = "[]"]) (simp_all add: CloseServer_def)
qed

section \<open>Start-up\<close>

definition sample_boot :: boot_env where
  "sample_boot =
     \<lparr>garbage_buffer = replicate 4096 0, garbage_fd = 0, garbage_start = 0, ctx_new_ok = True,
      min_proto_ok = True, cert_ok = True, key_ok = True, key_matches = True, socket_ret = 3,
      setsockopt_ok = True, bind_ok = True, listen_ok = True, start_now = 0,
      db_open_error = None, room_query = Rows [(7, Some (ascii ''lobby''), None)]\<rparr>"

lemma startup_Done:
  assumes "startup B = Done s0"
  shows "s0 = (Server_new B)\<lparr>m_SendHelloMsg := True, m_ctx := m_ctx s0, m_MasterSocket := socket_ret B,
      m_ServerState := m_ServerState s0, m_StartTime := start_now B,
      rooms := loadChatRooms (room_query B) Map.empty\<rparr>"
    and "m_ServerState s0 = (if socket_ret B = - 1 then NOT_STARTED else STARTED)"
  using assms
  by (auto simp: startup_def and_then_def Server_InitSSL_def InitSocket_def InitEntities_def
      SetSendHelloMessagesToNewClients_def Server_new_def Let_def Database_new_def
      split: if_splits option.splits)

lemma startup_ctx:
  assumes "startup B = Done s0"
  shows "m_ctx s0 = (if \<not> ctx_new_ok B then Ctx_null
    else if min_proto_ok B \<and> cert_ok B \<and> key_ok B \<and> key_matches B then Ctx_live else Ctx_freed)"
  using assms
  by (auto simp: startup_def and_then_def Server_InitSSL_def InitSocket_def InitEntities_def
      SetSendHelloMessagesToNewClients_def Let_def Database_new_def
      split: if_splits option.splits)

lemma startup_clients_good:
  assumes "startup B = Done s0" and "length (garbage_buffer B) = BUFFER_SIZE"
  shows "clients_good s0"
  using assms(2)
  by (subst startup_Done(1) [OF assms(1)])
    (simp add: clients_good_def server_inv_def Server_new_def ids_ok_def)

lemma startup_counter_good:
  assumes "startup B = Done s0"
  shows "counter_good E 0 s0"
  by (subst startup_Done(1) [OF assms]) (simp add: counter_good_def Server_new_def increments_def)



section \<open>Runs\<close>

lemma sample_turn:
  assumes "startup sample_boot = Done s0"
  shows "\<exists>t. main_turn sample_env True s0 = Inr t \<and> length (hist t) = 1 \<and> m_ClientSocket t = []"
  by (subst startup_Done(1) [OF assms])
    (simp add: main_turn_def and_next_def PoolActivity_def FD_SET_def fd_fits_def FD_SETSIZE_def
      sample_boot_def sample_env_def Server_new_def HandleNewConnections_def FD_ISSET_def
      ProcessRequests_def process_loop.simps ClosingRequested_def CloseServer_def Let_def)

lemma sample_startup: "\<exists>s0. startup sample_boot = Done s0 \<and> m_ServerState s0 = STARTED"
  by (simp add: sample_boot_def startup_def and_then_def Server_InitSSL_def InitSocket_def
      InitEntities_def Database_new_def)

lemma sample_run:
  obtains s0 t where "startup sample_boot = Done s0" "m_ServerState s0 = STARTED"
    "(step sample_env)\<^sup>*\<^sup>* (False, s0) (True, t)" "length (hist t) = 1"
    "main_turn sample_env True s0 = Inr t" "m_ClientSocket t = []"
proof -
  from sample_startup obtain s0 where s0: "startup sample_boot = Done s0" "m_ServerState s0 = STARTED"
    by blast
  from sample_turn [OF s0(1)] obtain t where t: "main_turn sample_env True s0 = Inr t"
    "length (hist t) = 1" "m_ClientSocket t = []" by blast
  have "step sample_env (False, s0) (True, s0)" by (rule signal)
  moreover have "step sample_env (True, s0) (True, t)" using s0(2) t(1) by (intro turn) simp_all
  ultimately have "(step sample_env)\<^sup>*\<^sup>* (False, s0) (True, t)" by (meson r_into_rtranclp rtranclp_trans)
  with s0 t show thesis by (intro that) auto
qed

text \<open>
  An environment in which somebody connects in the first turn, and TLS objects are numbered
  past all that were created before.
\<close>

fun created_of :: "event \<Rightarrow> nat" where
  "created_of (Ev_SSL_new (Some p)) = p"
| "created_of e = 0"

definition visit_env :: env where
  "visit_env = sample_env\<lparr>SSL_new_ret := \<lambda>h. Some (Suc (sum_list (map created_of h))),
     accept_ret := \<lambda>h. 7, select_ret := \<lambda>h fds. (1, if h = [] then {3} else {})\<rparr>"

lemma SendMOTD_at_once:
  assumes "\<And>h d. SSL_write_ret E h (ssl c) d = int (length d)"
  defines "pkt \<equiv> \<lambda>e. packet_header e SMSG_MOTD @ m_HelloMsg"
  shows "SendMOTD E c s =
    Inr (s\<lparr>hist := hist s @ [Ev_SSL_write (ssl c) (pkt (host E)) (int (length (pkt (host E))))]\<rparr>)"
proof -
  have nil: "motd_loop E p [] h = Inr h" for p h by (simp add: motd_loop.simps)
  have "pkt e \<noteq> []" for e by (simp add: pkt_def m_HelloMsg_def)
  then have "motd_loop E (ssl c) (pkt (host E)) h =
      Inr (h @ [Ev_SSL_write (ssl c) (pkt (host E)) (int (length (pkt (host E))))])" for h
    by (subst motd_loop.simps) (simp add: assms(1) nil Let_def)
  then show ?thesis by (simp add: SendMOTD_def pkt_def)
qed

lemma visit_admit:
  assumes "m_ctx s = Ctx_live" and "hist s = [e1, e2]" and "created_of e1 = 0" and "created_of e2 = 0"
    and "m_ClientSocket s = []" and "m_SendHelloMsg s"
  shows "\<exists>t c. admit visit_env 7 s = Inr t \<and> m_Readfds t = m_Readfds s \<and> m_ServerState t = m_ServerState s
    \<and> length (hist t) = 8 \<and> m_ClientSocket t = [c] \<and> ssl c = Some 1 \<and> socket c = 7"
proof -
  have motd: "SendMOTD visit_env c s = Inr (s\<lparr>hist := hist s @ [Ev_SSL_write (ssl c)
      (packet_header (host visit_env) SMSG_MOTD @ m_HelloMsg)
      (int (length (packet_header (host visit_env) SMSG_MOTD @ m_HelloMsg)))]\<rparr>)" for c s
    by (rule SendMOTD_at_once) (simp add: visit_env_def sample_env_def)
  have hs: "handshake visit_env fd p d h = Some (True, h @ [Ev_SSL_accept p 1])" for fd p d h
    by (subst handshake.simps) (simp add: visit_env_def sample_env_def)
  have new: "SSL_new_ret visit_env h = Some (Suc (sum_list (map created_of h)))"
    and fd: "SSL_set_fd_ret visit_env h = 1" for h
    by (simp_all add: visit_env_def sample_env_def)
  show ?thesis
    using assms
    by (simp add: admit_def with_ctx_def InitSSL_def new fd hs motd ClientSocket_new_def Let_def)
qed

lemma visit_turn:
  assumes "startup sample_boot = Done s0" and "m_ctx s0 = Ctx_live"
  shows "\<exists>t. main_turn visit_env False s0 = Inr t \<and> length (hist t) = 8
    \<and> map ssl (m_ClientSocket t) = [Some 1]"
proof -
  note s0 = startup_Done [OF assms(1)]
  have f: "hist s0 = []" "m_ClientSocket s0 = []" "m_MasterSocket s0 = 3" "m_SendHelloMsg s0"
    "m_ServerState s0 = STARTED"
    using arg_cong [OF s0(1), of hist] arg_cong [OF s0(1), of m_ClientSocket]
      arg_cong [OF s0(1), of m_MasterSocket] arg_cong [OF s0(1), of m_SendHelloMsg] s0(2)
    by (simp_all add: Server_new_def sample_boot_def)
  let ?s1 = "s0\<lparr>m_Readfds := {3}, hist := [Ev_select 4 {3} 1]\<rparr>"
  have pool: "PoolActivity visit_env s0 = Inr ?s1"
    by (simp add: PoolActivity_def f FD_SET_def fd_fits_def FD_SETSIZE_def visit_env_def)
  let ?s2 = "?s1\<lparr>hist := [Ev_select 4 {3} 1, Ev_accept 3 7]\<rparr>"
  have "HandleNewConnections visit_env ?s1 = admit visit_env 7 ?s2"
    by (simp add: HandleNewConnections_def f FD_ISSET_def fd_fits_def FD_SETSIZE_def Let_def visit_env_def)
  moreover obtain t c where "admit visit_env 7 ?s2 = Inr t" and t: "m_Readfds t = {3}"
    "m_ServerState t = STARTED" "length (hist t) = 8" "m_ClientSocket t = [c]" "ssl c = Some 1" "socket c = 7"
    using visit_admit [of ?s2 "Ev_select 4 {3} 1" "Ev_accept 3 7"] assms(2) f by auto
  ultimately show ?thesis
    by (simp add: main_turn_def and_next_def pool ProcessRequests_def process_loop.simps FD_ISSET_def
        fd_fits_def FD_SETSIZE_def t)
qed

lemma visit_run:
  obtains s0 t where "startup sample_boot = Done s0" "(step visit_env)\<^sup>*\<^sup>* (False, s0) (False, t)"
    "length (hist t) = 8" "map ssl (m_ClientSocket t) = [Some 1]"
proof -
  from sample_startup obtain s0 where s0: "startup sample_boot = Done s0" "m_ServerState s0 = STARTED"
    by blast
  have "m_ctx s0 = Ctx_live" by (simp add: startup_ctx [OF s0(1)] sample_boot_def)
  from visit_turn [OF s0(1) this] obtain t where t: "main_turn visit_env False s0 = Inr t"
    "length (hist t) = 8" "map ssl (m_ClientSocket t) = [Some 1]" by (elim exE conjE) (rule that)
  have "step visit_env (False, s0) (False, t)" using s0(2) t(1) by (intro turn) simp_all
  with s0(1) t(2,3) show thesis by (intro that) auto
qed

text \<open>
  C2. In every state that the server can reach, whatever clients, network and signals do,
  every client in its vector has passed the TLS handshake, client numbers are distinct and
  in order of connection, every joined room is in the table, and the receive buffer has
  its size. The one limit is \<open>2\<^sup>6\<^sup>4\<close> calls to the outside, before which the 64-bit client
  counter cannot wrap.
\<close>

theorem reachable_server_inv:
  assumes "startup B = Done s0" and "length (garbage_buffer B) = BUFFER_SIZE"
    and "(step E)\<^sup>*\<^sup>* (closing, s0) (closing', t)" and "length (hist t) < 2 ^ 64"
  shows "server_inv t"
  using clients.run_good [OF assms(3)] startup_clients_good [OF assms(1,2)] assms(4)
  by (simp add: clients_good_def)

theorem reachable_server_inv_witness:
  "\<exists>s0 t. startup sample_boot = Done s0 \<and> (step visit_env)\<^sup>*\<^sup>* (False, s0) (False, t)
     \<and> length (m_ClientSocket t) = 1 \<and> server_inv t"
proof (rule visit_run)
  fix s0 t
  assume "startup sample_boot = Done s0" "(step visit_env)\<^sup>*\<^sup>* (False, s0) (False, t)"
    and "length (hist t) = 8" and "map ssl (m_ClientSocket t) = [Some 1]"
  moreover have "length (garbage_buffer sample_boot) = BUFFER_SIZE"
    by (simp add: sample_boot_def BUFFER_SIZE_def)
  ultimately show ?thesis
    using reachable_server_inv [of sample_boot s0 visit_env False False t] by (auto simp: map_eq_Cons_conv)
qed

text \<open>
  C14. In every reachable state the shared counter has counted exactly the increment
  requests that were read since the start, from whatever clients and in whatever order,
  modulo \<open>2\<^sup>6\<^sup>4\<close>; nothing else changes it.
\<close>

theorem reachable_counter:
  assumes "startup B = Done s0" and "(step E)\<^sup>*\<^sup>* (closing, s0) (closing', t)"
  shows "m_Counter t = of_nat (increments (host E) (hist t))"
  using counter.run_good [OF assms(2)] startup_counter_good [OF assms(1)]
  by (simp add: counter_good_def)

theorem reachable_counter_witness:
  "\<exists>s0 t. startup sample_boot = Done s0 \<and> (step sample_env)\<^sup>*\<^sup>* (False, s0) (True, t)
     \<and> m_Counter t = of_nat (increments Little_endian (hist t))"
proof (rule sample_run)
  fix s0 t
  assume "startup sample_boot = Done s0" "(step sample_env)\<^sup>*\<^sup>* (False, s0) (True, t)"
  then show ?thesis
    using reachable_counter [of sample_boot s0 sample_env False True t] by (auto simp: sample_env_def)
qed

section \<open>Closing\<close>

lemma main_turn_state:
  assumes "main_turn E closing s = Inr t"
  shows "m_ServerState t = (if closing \<or> m_ServerState s = CLOSING then CLOSED else m_ServerState s)"
  using assms refl
proof (rule keeps_state.main_turn_split)
  fix u
  assume "m_ServerState u = m_ServerState s"
    and "t = (let s1 = (if closing then ClosingRequested u else u)
      in if m_ServerState s1 = CLOSING then CloseServer s1 else s1)"
  then show ?thesis by (simp add: Let_def ClosingRequested_def CloseServer_def)
qed

lemma main_turn_closing:
  assumes "main_turn E True s = Inr t"
  obtains u where "t = CloseServer (ClosingRequested u)"
  using assms refl
  by (rule keeps_state.main_turn_split) (simp add: that ClosingRequested_def Let_def)

interpretation started: invariant_system "step E" "\<lambda>c. m_ServerState (snd c) \<in> {STARTED, CLOSED}" for E
proof
  fix c d
  assume "step E c d" and "m_ServerState (snd c) \<in> {STARTED, CLOSED}"
  then show "m_ServerState (snd d) \<in> {STARTED, CLOSED}"
    by cases (auto simp: main_turn_state)
qed



text \<open>
  C27. After a signal the next turn that completes closes the server: every client's
  descriptor is shut down and closed, in order, as the last thing the turn does, and the
  main loop ends. The server object is then destroyed with its clients still in the
  vector, and the destructor of the first one uses its TLS object after freeing it; only
  without clients, and with a context that is not dangling, does the program end cleanly.
\<close>

theorem shutdown_outcome:
  assumes "main_turn E True s = Inr t"
  shows "m_ServerState t = CLOSED
    \<and> (\<exists>h. hist t = h @ concat (map (\<lambda>c. [Ev_shutdown (socket c), Ev_close (socket c)]) (m_ClientSocket t)))
    \<and> (\<forall>cl t'. \<not> (m_ServerState t \<noteq> CLOSED \<and> main_turn E cl t = Inr t'))
    \<and> (server_inv t \<and> m_ctx t = Ctx_live \<longrightarrow>
        Server_destroy t = (if m_ClientSocket t = [] then Inr (hist t) else Inl Use_after_free))"
proof (intro conjI impI)
  from assms obtain u where t: "t = CloseServer (ClosingRequested u)" by (rule main_turn_closing)
  show closed: "m_ServerState t = CLOSED" by (simp add: t CloseServer_def)
  then show "\<forall>cl t'. \<not> (m_ServerState t \<noteq> CLOSED \<and> main_turn E cl t = Inr t')" by simp
  show "\<exists>h. hist t = h @ concat (map (\<lambda>c. [Ev_shutdown (socket c), Ev_close (socket c)]) (m_ClientSocket t))"
    by (simp add: t CloseServer_def ClosingRequested_def fold_close_socket)
  assume good: "server_inv t \<and> m_ctx t = Ctx_live"
  show "Server_destroy t = (if m_ClientSocket t = [] then Inr (hist t) else Inl Use_after_free)"
  proof (cases "m_ClientSocket t")
    case Nil
    with good show ?thesis by (simp add: Server_destroy_def)
  next
    case (Cons c cs)
    with good have "client_ok (rooms t) c" by (auto dest: server_inv_client)
    then obtain p where "ssl c = Some p" by (auto simp: client_ok_def)
    with good Cons show ?thesis by (simp add: Server_destroy_def destroy_live)
  qed
qed

theorem shutdown_outcome_witness:
  "\<exists>s t. main_turn sample_env True s = Inr t \<and> m_ServerState t = CLOSED"
proof (rule sample_run)
  fix s0 t
  assume turn: "main_turn sample_env True s0 = Inr t"
  with shutdown_outcome [OF turn] show ?thesis by blast
qed

section \<open>One turn over the clients\<close>

text \<open>The clients that a turn reads from.\<close>

definition ready_clients :: "server \<Rightarrow> nat \<Rightarrow> ssl_ptr option list" where
  "ready_clients s i = map ssl (filter (\<lambda>c. socket c \<in> m_Readfds s) (drop i (m_ClientSocket s)))"

lemma map_filter_zip:
  "map f (filter (\<lambda>x. g x \<in> A) xs) = map fst (filter (\<lambda>y. snd y \<in> A) (zip (map f xs) (map g xs)))"
  by (induction xs) simp_all

lemma ready_clients_zip:
  "ready_clients s i = map fst (filter (\<lambda>y. snd y \<in> m_Readfds s)
     (zip (drop i (map ssl (m_ClientSocket s))) (drop i (map socket (m_ClientSocket s)))))"
  unfolding ready_clients_def drop_map by (rule map_filter_zip)

lemma ready_clients_frame:
  assumes "handler_frame j s t"
  shows "ready_clients t i = ready_clients s i"
  unfolding ready_clients_zip handler_frame_fields(8,12,13) [OF assms] ..

lemma ready_clients_Cons:
  "i < length (m_ClientSocket s) \<Longrightarrow> ready_clients s i =
     (if socket (m_ClientSocket s ! i) \<in> m_Readfds s then [ssl (m_ClientSocket s ! i)] else []) @
     ready_clients s (Suc i)"
  by (simp add: ready_clients_def Cons_nth_drop_Suc [symmetric])

lemma handler_frame_reads: "handler_frame i s t \<Longrightarrow> reads (hist t) = reads (hist s)"
  by (auto simp: handler_frame_def talk_no_reads)

lemma process_loop_reads:
  assumes "process_loop E i s = Inr t" and "m_ServerState s \<noteq> CLOSING"
  shows "map fst (reads (hist t)) = map fst (reads (hist s)) @ ready_clients s i"
  using assms
proof (induction E i s rule: process_loop.induct)
  case (1 E i s)
  let ?c = "m_ClientSocket s ! i"
  obtain bs s1 where rd: "SSL_read_call E (ssl ?c) s = (bs, s1)" by fastforce
  note s1 = SSL_read_call_eq(1) [OF rd]
  show ?case
  proof (cases "i < length (m_ClientSocket s)")
    case False
    with "1.prems" show ?thesis by (simp add: process_loop.simps ready_clients_def)
  next
    case i: True
    note run = "1.prems"(1) [unfolded process_loop.simps [of E i s] Let_def]
    from run i "1.prems"(2) obtain ready where isset: "FD_ISSET (socket ?c) (m_Readfds s) = Inr ready"
      by (cases "FD_ISSET (socket ?c) (m_Readfds s)") auto
    then have ready: "ready \<longleftrightarrow> socket ?c \<in> m_Readfds s" by (auto simp: FD_ISSET_def split: if_splits)
    note IH = "1.IH"(2-4) [OF i refl "1.prems"(2) isset] and split = ready_clients_Cons [OF i]
    consider (skip) "\<not> ready" "process_loop E (Suc i) s = Inr t"
      | (gone) s' where ready "bs = []" "drop_client i s1 = Inr s'" "process_loop E i s' = Inr t"
      | (served) s' where ready "bs \<noteq> []" "serve E i bs s1 = Inr s'" "process_loop E (Suc i) s' = Inr t"
      using run i "1.prems"(2) isset rd by (auto split: if_splits sum.splits)
    then show ?thesis
    proof cases
      case skip
      with IH(3) "1.prems"(2) show ?thesis by (simp add: split flip: ready)
    next
      case gone
      have s': "map fst (reads (hist s')) = map fst (reads (hist s)) @ [ssl ?c]
          \<and> m_ServerState s' = m_ServerState s \<and> ready_clients s' i = ready_clients s (Suc i)"
        by (rule hangup_effect [OF i rd [unfolded gone(2)] gone(3)])
          (use i in \<open>simp add: ready_clients_def\<close>)
      with IH(1) [OF gone(1) _ gone(2) gone(3)] gone(1,4) rd "1.prems"(2) show ?thesis
        by (simp add: split flip: ready)
    next
      case served
      note f = serve_frame [OF served(3)]
      have "reads (hist s') = reads (hist s) @ [(ssl ?c, bs)]" "m_ServerState s' = m_ServerState s"
        "ready_clients s' (Suc i) = ready_clients s (Suc i)"
        using handler_frame_reads [OF f] handler_frame_fields(5) [OF f] ready_clients_frame [OF f]
        by (simp_all add: s1 ready_clients_def)
      with IH(2) [OF served(1) _ served(2)] served(1,3,4) rd "1.prems"(2) show ?thesis
        by (simp add: split flip: ready)
    qed
  qed
qed

text \<open>
  C9. A turn reads from every ready client exactly once, in the order of the vector, and
  from nobody else, also when clients hang up and are removed from the vector on the way:
  no client is skipped and none is read twice.
\<close>

theorem requests_read_once:
  assumes "ProcessRequests E s = Inr t" and "m_ServerState s \<noteq> CLOSING"
  shows "map fst (reads (hist t)) = map fst (reads (hist s)) @
    map ssl (filter (\<lambda>c. socket c \<in> m_Readfds s) (m_ClientSocket s))"
  using process_loop_reads [OF assms(1) [unfolded ProcessRequests_def] assms(2)]
  by (simp add: ready_clients_def)

theorem requests_read_once_witness:
  "(let s = (sample_server [])\<lparr>m_Readfds := {6}\<rparr>;
        E = sample_env\<lparr>SSL_read_ret := \<lambda>h p. Some (packet_header Big_endian CMSG_INCREMENT_COUNTER)\<rparr>
    in \<exists>t. ProcessRequests E s = Inr t \<and> map fst (reads (hist t)) = [Some 2] \<and> m_Counter t = 42)"
proof -
  let ?s = "(sample_server [])\<lparr>m_Readfds := {6}\<rparr>"
  let ?E = "sample_env\<lparr>SSL_read_ret := \<lambda>h p. Some (packet_header Big_endian CMSG_INCREMENT_COUNTER)\<rparr>"
  have st: "m_ServerState ?s \<noteq> CLOSING" by (simp add: sample_server_def)
  obtain t where t: "ProcessRequests ?E ?s = Inr t" "m_Counter t = 42"
    by (simp add: ProcessRequests_def process_loop.simps FD_ISSET_def fd_fits_def FD_SETSIZE_def
        SSL_read_call_def BUFFER_SIZE_def serve_def CallHandler_def incrementCounter_def
        ClientSocket_new_def sample_server_def Let_def)
  with requests_read_once [OF t(1) st] show ?thesis
    by (auto simp: Let_def ClientSocket_new_def)
qed

lemma process_loop_skip:
  assumes "i \<le> k" and "k \<le> length (m_ClientSocket s)" and "m_ServerState s \<noteq> CLOSING"
    and "\<And>j. i \<le> j \<Longrightarrow> j < k \<Longrightarrow> FD_ISSET (socket (m_ClientSocket s ! j)) (m_Readfds s) = Inr False"
  shows "process_loop E i s = process_loop E k s"
  using assms
proof (induction i rule: inc_induct)
  case (step i)
  then have "process_loop E i s = process_loop E (Suc i) s"
    by (subst process_loop.simps) simp
  with step show ?case by simp
qed simp

lemma FD_ISSET_eq: "FD_ISSET fd fds = Inr b \<longleftrightarrow> fd_fits fd \<and> (b \<longleftrightarrow> fd \<in> fds)"
  by (auto simp: FD_ISSET_def)

lemma ProcessRequests_hangup:
  assumes running: "m_ServerState s \<noteq> CLOSING" and i: "i < length (m_ClientSocket s)"
    and isset: "\<And>j. j < length (m_ClientSocket s)
      \<Longrightarrow> FD_ISSET (socket (m_ClientSocket s ! j)) (m_Readfds s) = Inr (j = i)"
    and gone: "SSL_read_ret E (hist s) (ssl (m_ClientSocket s ! i)) = None"
  shows "ProcessRequests E s =
    (case drop_client i (s\<lparr>hist := hist s @ [Ev_SSL_read (ssl (m_ClientSocket s ! i)) []]\<rparr>) of
       Inl f \<Rightarrow> Inl f | Inr s' \<Rightarrow> process_loop E i s')"
proof -
  have "process_loop E 0 s = process_loop E i s"
    by (rule process_loop_skip) (use i running isset in auto)
  moreover have "SSL_read_call E (ssl (m_ClientSocket s ! i)) s =
      ([], s\<lparr>hist := hist s @ [Ev_SSL_read (ssl (m_ClientSocket s ! i)) []]\<rparr>)"
    by (simp add: SSL_read_call_def gone)
  ultimately show ?thesis
    unfolding ProcessRequests_def using i running isset [OF i]
    by (simp add: process_loop.simps [of E i s])
qed

text \<open>
  C10. What happens when one client hangs up while nobody else has anything to say: if it
  is not the last of the vector, it is shut down, closed and released and all others stay;
  if it is the last, in particular if it is the only client, its destructor uses the freed
  TLS object and the server's behaviour is undefined.
\<close>

theorem hangup_outcome:
  assumes inv: "server_inv s" and running: "m_ServerState s \<noteq> CLOSING"
    and i: "i < length (m_ClientSocket s)"
    and fits: "\<forall>c \<in> set (m_ClientSocket s). fd_fits (socket c)"
    and ready: "\<forall>j < length (m_ClientSocket s). socket (m_ClientSocket s ! j) \<in> m_Readfds s \<longleftrightarrow> j = i"
    and gone: "SSL_read_ret E (hist s) (ssl (m_ClientSocket s ! i)) = None"
  shows "ProcessRequests E s =
    (if Suc i < length (m_ClientSocket s)
     then (let c = m_ClientSocket s ! i
           in Inr (s\<lparr>m_ClientSocket := take i (m_ClientSocket s) @ drop (Suc i) (m_ClientSocket s),
                hist := hist s @ [Ev_SSL_read (ssl c) [], Ev_shutdown (socket c), Ev_close (socket c),
                  Ev_SSL_free (the (ssl c)), Ev_close (socket c)]\<rparr>))
     else Inl Use_after_free)"
proof -
  let ?cs = "m_ClientSocket s" and ?c = "m_ClientSocket s ! i"
  let ?s1 = "s\<lparr>hist := hist s @ [Ev_SSL_read (ssl ?c) []]\<rparr>"
  have "client_ok (rooms s) ?c" using inv i by (auto intro: server_inv_client)
  then obtain p where p: "ssl ?c = Some p" and sock: "socket ?c \<noteq> INVALID_SOCKET"
    by (auto simp: client_ok_def INVALID_SOCKET_def)
  have isset: "FD_ISSET (socket (?cs ! j)) (m_Readfds s) = Inr (j = i)" if "j < length ?cs" for j
    using that fits ready by (auto simp: FD_ISSET_eq)
  note run = ProcessRequests_hangup [OF running i isset gone]
  show ?thesis
  proof (cases "Suc i < length ?cs")
    case False
    with i have "vec_erase i ?cs h = Inl Use_after_free" for h
      by (intro vec_erase_last [OF _ p]) simp
    with False show ?thesis by (simp add: run drop_client_def)
  next
    case True
    let ?t = "s\<lparr>m_ClientSocket := take i ?cs @ drop (Suc i) ?cs,
      hist := hist s @ [Ev_SSL_read (ssl ?c) [], Ev_shutdown (socket ?c), Ev_close (socket ?c),
        Ev_SSL_free p, Ev_close (socket ?c)]\<rparr>"
    have drop: "drop_client i ?s1 = Inr ?t"
      using True p sock by (simp add: drop_client_def vec_erase_inner release_events_def close_socket_def)
    have "process_loop E i ?t = process_loop E (length (m_ClientSocket ?t)) ?t"
    proof (rule process_loop_skip)
      fix j
      assume "i \<le> j" and "j < length (m_ClientSocket ?t)"
      with True have "Suc j < length ?cs" "m_ClientSocket ?t ! j = ?cs ! Suc j"
        by (auto simp: nth_append)
      with isset [of "Suc j"] \<open>i \<le> j\<close>
      show "FD_ISSET (socket (m_ClientSocket ?t ! j)) (m_Readfds ?t) = Inr False" by simp
    qed (use True running in \<open>auto simp: not_less\<close>)
    also have "\<dots> = Inr ?t" by (simp add: process_loop.simps)
    finally show ?thesis using True p by (simp add: run drop [unfolded p] Let_def)
  qed
qed

theorem hangup_outcome_witness:
  "ProcessRequests sample_env ((sample_server [])\<lparr>m_Readfds := {6}\<rparr>) = Inl Use_after_free
   \<and> (\<exists>t. ProcessRequests sample_env ((sample_server [])\<lparr>m_Readfds := {5}\<rparr>) = Inr t
        \<and> map clientID (m_ClientSocket t) = [2])"
proof -
  have inv: "server_inv ((sample_server [])\<lparr>m_Readfds := A\<rparr>)" for A
    using sample_server_inv [of "[]"] by (simp add: server_inv_def)
  have two: "j < Suc (Suc 0) \<longleftrightarrow> j = 0 \<or> j = 1" for j :: nat by auto
  show ?thesis
    using hangup_outcome [OF inv [of "{6}"], of 1 sample_env] hangup_outcome [OF inv [of "{5}"], of 0 sample_env]
    by (simp add: ClientSocket_new_def fd_fits_def FD_SETSIZE_def two all_conj_distrib sample_env_def)
      (simp add: sample_server_def)
qed

section \<open>The greeting\<close>

text \<open>What the TLS layer accepted of what it was offered.\<close>

fun accepted_of :: "event \<Rightarrow> bytes" where
  "accepted_of (Ev_SSL_write p bs r) = take (nat r) bs"
| "accepted_of e = []"

definition accepted :: "history \<Rightarrow> bytes" where
  "accepted h = concat (map accepted_of h)"

lemma motd_loop_accepted:
  assumes "\<And>h d. SSL_write_ret E h p d \<le> int (length d)"
  shows "\<exists>tr rest. motd_loop E p d h = Inr (h @ tr) \<and> d = accepted tr @ rest
    \<and> (rest = [] \<or> (\<exists>h'. SSL_write_ret E h' p rest \<le> 0))"
  using assms
proof (induction E p d h rule: motd_loop.induct)
  case (1 E p d h)
  let ?w = "SSL_write_ret E h p d"
  let ?h1 = "h @ [Ev_SSL_write p d ?w]"
  consider "d = []" | "d \<noteq> []" "?w \<le> 0" | "d \<noteq> []" "\<not> ?w \<le> 0" by blast
  then show ?case
  proof cases
    case 1
    then show ?thesis by (intro exI [of _ "[]"] exI [of _ d]) (simp add: motd_loop.simps accepted_def)
  next
    case 2
    then show ?thesis
      by (intro exI [of _ "[Ev_SSL_write p d ?w]"] exI [of _ d])
        (auto simp: motd_loop.simps accepted_def)
  next
    case 3
    have fit: "\<not> length d < nat ?w" using "1.prems" [of h d] by linarith
    from "1.IH" [OF 3(1) refl refl 3(2) fit "1.prems"] obtain tr rest where
      run: "motd_loop E p (drop (nat ?w) d) ?h1 = Inr (?h1 @ tr)"
      and cut: "drop (nat ?w) d = accepted tr @ rest"
      and stop: "rest = [] \<or> (\<exists>h'. SSL_write_ret E h' p rest \<le> 0)" by blast
    from cut have "d = accepted (Ev_SSL_write p d ?w # tr) @ rest"
      by (simp add: accepted_def) (metis append_take_drop_id)
    moreover have "motd_loop E p d h = Inr (h @ Ev_SSL_write p d ?w # tr)"
      using 3 fit run by (subst motd_loop.simps) (simp add: Let_def)
    ultimately show ?thesis using stop by blast
  qed
qed



end
