(* ===== verification/Server_Sends.thy ===== *)
theory Server_Sends
  imports Server_Requests
begin

text \<open>
  What the handlers of \<open>src/server/Server.cpp\<close> send, and to whom: every packet goes to a
  connected client and is of one of a few shapes, whose size the receive buffer bounds.
\<close>

section \<open>The packets of the server\<close>

inductive server_packet :: "endian \<Rightarrow> nat \<Rightarrow> bytes \<Rightarrow> bool" for e L where
  plain: "op \<in> {SMSG_ECHO_REQUEST, SMSG_BROADCAST, SMSG_SAY} \<Longrightarrow> 2 + length m \<le> L
    \<Longrightarrow> server_packet e L (packet_header e op @ m)"
| bare: "op \<in> {SMSG_PONG, SMSG_SAY_OK} \<Longrightarrow> server_packet e L (packet_header e op)"
| number: "op \<in> {SMSG_ADDITION_REQUEST, SMSG_COUNTER}
    \<Longrightarrow> server_packet e L (packet_header e op @ mem_bytes e (w :: u64))"
| status: "op \<in> {SMSG_PRIVATE_MSG_ERR, SMSG_JOIN_CHAT_ROOM_OK, SMSG_JOIN_CHAT_ROOM_ERR, SMSG_SAY_ERR}
    \<Longrightarrow> server_packet e L (packet_header e op @ [b])"
| client_list: "length m \<le> 4093 \<Longrightarrow> server_packet e L (packet_header e SMSG_CLIENT_LIST @ b # m)"
| private_text: "10 + length m \<le> L
    \<Longrightarrow> server_packet e L (packet_header e SMSG_PRIVATE_MESSAGE @ mem_bytes e (cid :: u64) @ m)"
| free_text: "op \<in> {SMSG_MESSAGE, SMSG_UPTIME} \<Longrightarrow> server_packet e L (packet_header e op @ m)"

inductive_cases server_packetE: "server_packet e L pkt"

definition sends :: "env \<Rightarrow> server \<Rightarrow> server \<Rightarrow> bool" where
  "sends E s t \<longleftrightarrow>
     (\<exists>xs. sent (hist t) = sent (hist s) @ xs
        \<and> (\<forall>(q, pkt) \<in> set xs. q \<in> ssl ` set (m_ClientSocket s)
              \<and> server_packet (host E) (length (buffer s)) pkt))"

lemma sends_refl: "hist t = hist s \<Longrightarrow> sends E s t"
  by (simp add: sends_def)

lemma sends_one:
  assumes "sent (hist t) = sent (hist s) @ [(ssl (m_ClientSocket s ! i), pkt)]"
    and "server_packet (host E) (length (buffer s)) pkt" and "i < length (m_ClientSocket s)"
  shows "sends E s t"
  using assms by (simp add: sends_def)

lemmas packet_intros = plain bare number status client_list private_text free_text

section \<open>Handler by handler\<close>

lemma sends_echo:
  "2 + length m \<le> length (buffer s) \<Longrightarrow> i < length (m_ClientSocket s) \<Longrightarrow> sends E s (CallHandlerEcho E i m s)"
  by (rule sends_one [of _ _ i "packet_header (host E) SMSG_ECHO_REQUEST @ m"])
    (simp_all add: CallHandlerEcho_def plain)

lemma sends_add:
  assumes "CallHandlerAdd E i off n s = Inr t" and "i < length (m_ClientSocket s)"
  shows "sends E s t"
  using assms number [of SMSG_ADDITION_REQUEST "host E" "length (buffer s)"]
  by (auto simp: CallHandlerAdd_def sends_def split: sum.splits)

lemma sends_broadcast:
  "2 + length m \<le> length (buffer s) \<Longrightarrow> sends E s (CallHandlerBroadcast E m s)"
  by (auto simp: sends_def CallHandlerBroadcast_def broadcast_loop_sends intro!: plain)

lemma sends_client_list:
  "i < length (m_ClientSocket s) \<Longrightarrow> sends E s (CallHandlerGetClientList E i s)"
  by (auto simp: sends_def CallHandlerGetClientList_def Let_def intro!: client_list client_list [where m = "[]"])

lemma sends_private:
  assumes "CallHandlerMsgToClient E i 2 n s = Inr t" and "i < length (m_ClientSocket s)"
  shows "sends E s t"
proof -
  have target: "c \<in> set (m_ClientSocket s)" if "msg_target cid d (m_ClientSocket s) = Inr c" for cid c d
    using that by (auto simp: msg_target_def find_Some_iff split: if_splits option.splits)
  have size: "10 + length bs \<le> length (buffer s)" if "read_at (buffer s) 10 n = Inr bs" for bs
    using read_at_InrD [OF that] by auto
  show ?thesis
    using assms unfolding CallHandlerMsgToClient_def Let_def send_msg_status_def
    by (auto simp: sends_def split: sum.splits if_splits dest!: target size intro!: status private_text)
qed

lemma sends_pong: "i < length (m_ClientSocket s) \<Longrightarrow> sends E s (CallHandlerPong E i s)"
  by (simp add: sends_def CallHandlerPong_def bare)

lemma sends_uptime: "i < length (m_ClientSocket s) \<Longrightarrow> sends E s (CallHandlerUptime E i s)"
  by (simp add: sends_def CallHandlerUptime_def Let_def free_text)

lemma sends_counter: "i < length (m_ClientSocket s) \<Longrightarrow> sends E s (CallHandlerGetCounter E i s)"
  by (simp add: sends_def CallHandlerGetCounter_def number)

lemma sends_text: "i < length (m_ClientSocket s) \<Longrightarrow> sends E s (SendMsgToSocket E (m_ClientSocket s ! i) m s)"
  by (simp add: sends_def free_text)

lemma sends_info:
  assumes "CallHandlerGetRoominfo E i s = Inr t" and "i < length (m_ClientSocket s)"
  shows "sends E s t"
  using assms by (auto simp: CallHandlerGetRoominfo_def Let_def sends_text split: if_splits sum.splits)

lemma sends_join:
  assumes "CallHandlerJoinRoom E i off n s = Inr t" and "i < length (m_ClientSocket s)"
  shows "sends E s t"
  using assms
  by (auto simp: CallHandlerJoinRoom_def join_reply_def sends_def Let_def status split: sum.splits if_splits)

lemma sends_say:
  "2 + length m \<le> length (buffer s) \<Longrightarrow> i < length (m_ClientSocket s) \<Longrightarrow> sends E s (CallHandlerSay E i m s)"
  unfolding CallHandlerSay_def Let_def
  by (auto simp: sends_def say_loop_sends bare plain status)

lemma payload_sends:
  assumes "with_payload n s f = Inr t"
    and "\<And>m. 2 + length m \<le> length (buffer s) \<Longrightarrow> sends E s (f m)"
  shows "sends E s t"
proof -
  from assms(1) obtain m where m: "read_at (buffer s) 2 (n - 2) = Inr m" and t: "t = f m"
    by (auto simp: with_payload_def split: sum.splits)
  from read_at_InrD [OF m] have "2 + length m \<le> length (buffer s)" by auto
  then show ?thesis unfolding t by (rule assms(2))
qed

lemma CallHandler_sends:
  assumes "CallHandler E i n s = Inr t" and "i < length (m_ClientSocket s)"
  shows "sends E s t"
  using assms unfolding CallHandler_def Let_def
  by (auto split: if_splits simp: CallHandlerGetChatRooms_def
      elim!: payload_sends
      intro: sends_echo sends_add sends_broadcast sends_client_list sends_private sends_pong sends_uptime
        sends_counter sends_text sends_info sends_join sends_say sends_refl)

lemma CallHandler_targets:
  assumes "CallHandler E i n s = Inr t" and "i < length (m_ClientSocket s)"
  obtains xs where "sent (hist t) = sent (hist s) @ xs" and "fst ` set xs \<subseteq> ssl ` set (m_ClientSocket s)"
  using CallHandler_sends [OF assms] unfolding sends_def by fastforce

end
