(* ===== verification/Server_Tls.thy ===== *)
theory Server_Tls
  imports Server_Runs Server_Sends
begin

text \<open>
  The TLS objects of \<open>src/server/Server.cpp\<close> over a whole run of the server: which of them
  are alive after a history, which calls use one, and the invariant that ties them to the
  vector of clients. \<open>SSL_new\<close> is only assumed not to return an object that is alive.
\<close>

section \<open>Live objects\<close>

fun live_step :: "event \<Rightarrow> ssl_ptr set \<Rightarrow> ssl_ptr set" where
  "live_step (Ev_SSL_new (Some p)) L = insert p L"
| "live_step (Ev_SSL_free p) L = L - {p}"
| "live_step e L = L"

definition live :: "history \<Rightarrow> ssl_ptr set" where
  "live h = fold live_step h {}"

text \<open>The objects that a call is made on; \<open>None\<close> is the null pointer.\<close>

fun uses :: "event \<Rightarrow> ssl_ptr option list" where
  "uses (Ev_SSL_set_fd p fd r) = [Some p]"
| "uses (Ev_SSL_accept p r) = [Some p]"
| "uses (Ev_SSL_free p) = [Some p]"
| "uses (Ev_SSL_shutdown p) = [Some p]"
| "uses (Ev_SSL_write p bs r) = [p]"
| "uses (Ev_SSL_read p bs) = [p]"
| "uses e = []"

text \<open>Every call of the history is made on an object that is alive at that moment.\<close>

fun valid_from :: "ssl_ptr set \<Rightarrow> history \<Rightarrow> bool" where
  "valid_from L [] = True"
| "valid_from L (e # h) = (set (uses e) \<subseteq> Some ` L \<and> valid_from (live_step e L) h)"

abbreviation valid :: "history \<Rightarrow> bool" where
  "valid \<equiv> valid_from {}"

lemma live_append: "live (h @ tr) = fold live_step tr (live h)"
  by (simp add: live_def)

lemma valid_from_append: "valid_from L (a @ b) = (valid_from L a \<and> valid_from (fold live_step a L) b)"
  by (induction a arbitrary: L) simp_all

lemma valid_append: "valid (h @ tr) = (valid h \<and> valid_from (live h) tr)"
  by (simp add: valid_from_append live_def)

text \<open>Calls that neither create nor free an object.\<close>

fun steady :: "event \<Rightarrow> bool" where
  "steady (Ev_SSL_new p) = False"
| "steady (Ev_SSL_free p) = False"
| "steady e = True"

lemma live_steady: "list_all steady tr \<Longrightarrow> fold live_step tr L = L"
proof (induction tr)
  case (Cons e tr)
  then have "live_step e L = L" by (cases e) simp_all
  with Cons show ?case by simp
qed simp

lemma valid_steady:
  assumes "list_all steady tr" and "\<And>e. e \<in> set tr \<Longrightarrow> set (uses e) \<subseteq> Some ` L"
  shows "valid_from L tr"
  using assms
proof (induction tr)
  case (Cons e tr)
  then have "live_step e L = L" by (cases e) simp_all
  with Cons show ?case by simp
qed simp

section \<open>The invariant\<close>

text \<open>
  The history is valid, no two clients share an object, and the live objects are exactly
  those of the clients: nothing dangles and nothing leaks.
\<close>

definition tls_good :: "server \<Rightarrow> bool" where
  "tls_good s \<longleftrightarrow> valid (hist s) \<and> distinct (map ssl (m_ClientSocket s))
     \<and> Some ` live (hist s) = ssl ` set (m_ClientSocket s)"

definition alloc_fresh :: "env \<Rightarrow> bool" where
  "alloc_fresh E \<longleftrightarrow> (\<forall>h p. SSL_new_ret E h = Some p \<longrightarrow> p \<notin> live h)"

lemma alloc_fresh_ctx: "with_ctx E ctx = Inr E' \<Longrightarrow> alloc_fresh E \<Longrightarrow> alloc_fresh E'"
  by (auto simp: with_ctx_def alloc_fresh_def split: ctx_state.splits)

lemma tls_good_steady:
  assumes "tls_good s" and "hist t = hist s @ tr" and "map ssl (m_ClientSocket t) = map ssl (m_ClientSocket s)"
    and "list_all steady tr" and "\<And>e. e \<in> set tr \<Longrightarrow> set (uses e) \<subseteq> ssl ` set (m_ClientSocket s)"
  shows "tls_good t"
proof -
  have "ssl ` set (m_ClientSocket t) = ssl ` set (m_ClientSocket s)"
    using assms(3) by (metis image_set)
  with assms show ?thesis
    by (simp add: tls_good_def live_append valid_append live_steady valid_steady)
qed

lemma tls_good_event:
  assumes "tls_good s" and "hist t = hist s @ [e]" and "m_ClientSocket t = m_ClientSocket s"
    and "steady e" and "set (uses e) \<subseteq> ssl ` set (m_ClientSocket s)"
  shows "tls_good t"
  using assms(1,2) by (rule tls_good_steady) (use assms(3-5) in simp_all)

section \<open>Requests use the objects of connected clients\<close>

lemma serve_targets:
  assumes "serve E i bs s = Inr t" and "i < length (m_ClientSocket s)"
  obtains xs where "sent (hist t) = sent (hist s) @ xs" and "fst ` set xs \<subseteq> ssl ` set (m_ClientSocket s)"
proof (cases "2 \<le> length bs")
  case True
  with assms have "CallHandler E i (length bs) s = Inr t" by (simp add: serve_def)
  from this assms(2) show thesis by (rule CallHandler_targets) (rule that)
next
  case False
  with assms that show thesis by (auto simp: serve_def Let_def)
qed

lemma talk_uses:
  assumes "list_all talk_event tr" and "e \<in> set tr" and "q \<in> set (uses e)"
  shows "q \<in> fst ` set (sent tr)"
proof -
  from assms have "talk_event e" by (auto simp: list_all_iff)
  with assms(3) obtain bs where "(q, bs) \<in> set (sent_of e)" by (cases e) auto
  with assms(2) show ?thesis by (auto simp: sent_def image_iff intro!: bexI [of _ "(q, bs)"])
qed

lemma talk_steady: "list_all talk_event tr \<Longrightarrow> list_all steady tr"
proof (induction tr)
  case (Cons e tr)
  then show ?case by (cases e) simp_all
qed simp

lemma serve_tls_good:
  assumes "serve E i bs s = Inr t" and "i < length (m_ClientSocket s)" and "tls_good s"
  shows "tls_good t"
proof -
  note frame = serve_frame [OF assms(1)]
  from frame obtain tr where tr: "list_all talk_event tr" "hist t = hist s @ tr"
    by (auto simp: handler_frame_def)
  from assms(1,2) have "fst ` set (sent tr) \<subseteq> ssl ` set (m_ClientSocket s)"
    by (rule serve_targets) (simp add: tr(2))
  then show ?thesis
    by (intro tls_good_steady [OF assms(3) tr(2) handler_frame_fields(12) [OF frame] talk_steady [OF tr(1)]])
      (use talk_uses [OF tr(1)] in blast)
qed

section \<open>Connecting and hanging up\<close>

lemma quiet_steady:
  assumes "quiet p tr"
  shows "list_all steady tr" and "e \<in> set tr \<Longrightarrow> set (uses e) \<subseteq> {Some p}"
proof -
  have "steady e" if "quiet_event p e" for e using that by (cases e) simp_all
  then show "list_all steady tr" using assms by (simp add: list_all_iff)
  assume "e \<in> set tr"
  with assms have "quiet_event p e" by (simp add: list_all_iff)
  then show "set (uses e) \<subseteq> {Some p}" by (cases e) auto
qed

lemma writes_steady:
  assumes "writes_to q tr"
  shows "list_all steady tr" and "e \<in> set tr \<Longrightarrow> set (uses e) \<subseteq> {q}"
  using talk_steady [OF writes_to_talk [OF assms]] assms by (auto simp: writes_to_def)

text \<open>
  The calls of a handshake and of the greeting that follows it, on a fresh object: all on
  that object, which is alive afterwards exactly if the handshake succeeded.
\<close>

lemma InitSSL_live:
  assumes "InitSSL E c timeoutSeconds h = Some (ok, c', h')" and "alloc_fresh E"
  obtains tr where "h' = h @ tr" "valid_from (live h) tr"
    "ok \<Longrightarrow> \<exists>p. p \<notin> live h \<and> ssl c' = Some p \<and> live h' = insert p (live h)"
    "\<not> ok \<Longrightarrow> live h' = live h"
proof -
  have fresh: "p \<notin> live h" if "SSL_new_ret E h = Some p" for p
    using assms(2) that by (simp add: alloc_fresh_def)
  from assms(1) show thesis
  proof (rule InitSSL_trace, goal_cases)
    case 1
    then show ?thesis by (intro that [of "drop (length h) h'"]) (simp_all add: live_append)
  next
    case (2 p r)
    with fresh [OF 2(3)] show ?thesis
      by (intro that [of "drop (length h) h'"]) (simp_all add: live_append)
  next
    case (3 p t tr)
    note q = quiet_steady [OF 3(2)]
    have v: "valid_from (insert p (live h)) tr"
      by (rule valid_steady [OF q(1)]) (use q(2) in blast)
    from 3 v fresh [OF 3(1)] show ?thesis
      by (intro that [of "drop (length h) h'"])
        (simp_all add: live_append valid_from_append live_steady [OF q(1)])
  qed
qed

lemma tls_good_admit:
  assumes "admit E fd s = Inr t" and "alloc_fresh E" and "tls_good s"
  shows "tls_good t"
  using assms(1)
proof (rule admit_cases)
  fix E' ok c' h2 w
  let ?h1 = "hist s @ [Ev_set_nonblocking fd]"
  assume ctx: "with_ctx E (m_ctx s) = Inr E'"
    and init: "InitSSL E' ((ClientSocket_new (uninit_ssl E ?h1) fd)\<lparr>clientID := m_UniqueCLientCounter s\<rparr>) 10 ?h1 =
      Some (ok, c', h2)"
    and yes: "ok \<longrightarrow> writes_to (ssl c') w \<and> t = s\<lparr>m_UniqueCLientCounter := m_UniqueCLientCounter s + 1,
       hist := h2 @ w, m_ClientSocket := m_ClientSocket s @ [c']\<rparr>"
    and no: "\<not> ok \<longrightarrow> t = s\<lparr>m_UniqueCLientCounter := m_UniqueCLientCounter s + 1, hist := h2 @ [Ev_close fd]\<rparr>"
  have h1: "live ?h1 = live (hist s)" "valid ?h1"
    using assms(3) by (simp_all add: live_append valid_append tls_good_def)
  from init alloc_fresh_ctx [OF ctx assms(2)] obtain tr where tr: "h2 = ?h1 @ tr" "valid_from (live ?h1) tr"
    and ok: "ok \<Longrightarrow> \<exists>p. p \<notin> live ?h1 \<and> ssl c' = Some p \<and> live h2 = insert p (live ?h1)"
    and failed: "\<not> ok \<Longrightarrow> live h2 = live ?h1"
    by (rule InitSSL_live) blast
  from tr h1 have v: "valid h2" by (simp add: valid_append)
  show "tls_good t"
  proof (cases ok)
    case False
    with no failed h1 v assms(3) show ?thesis by (simp add: tls_good_def live_append valid_append)
  next
    case True
    with ok h1 obtain p where p: "p \<notin> live (hist s)" "ssl c' = Some p" "live h2 = insert p (live (hist s))"
      by auto
    from True yes have w: "writes_to (Some p) w" and t: "hist t = h2 @ w"
      "m_ClientSocket t = m_ClientSocket s @ [c']" by (simp_all add: p(2))
    note ws = writes_steady [OF w]
    have "valid_from (live h2) w" by (rule valid_steady [OF ws(1)]) (use ws(2) p(3) in blast)
    with v have "valid (hist t)" by (simp add: t valid_append)
    moreover have "live (hist t) = insert p (live (hist s))" by (simp add: t live_append live_steady [OF ws(1)] p(3))
    moreover have "Some p \<notin> ssl ` set (m_ClientSocket s)" using assms(3) p(1) by (auto simp: tls_good_def)
    ultimately show ?thesis using assms(3) by (simp add: tls_good_def t(2) p(2))
  qed
qed

lemma tls_good_release:
  assumes "tls_good s" and "i < length (m_ClientSocket s)"
    and "m_ClientSocket t = take i (m_ClientSocket s) @ drop (Suc i) (m_ClientSocket s)"
    and "hist t = hist s @ pre @ release_events (m_ClientSocket s ! i)"
    and "list_all steady pre" and "\<And>e. e \<in> set pre \<Longrightarrow> set (uses e) \<subseteq> ssl ` set (m_ClientSocket s)"
  shows "tls_good t"
proof -
  let ?cs = "m_ClientSocket s"
  let ?c = "?cs ! i"
  have cs: "?cs = take i ?cs @ ?c # drop (Suc i) ?cs" using assms(2) by (rule id_take_nth_drop)
  have "ssl ?c \<in> Some ` live (hist s)" using assms(1,2) by (simp add: tls_good_def)
  then obtain p where p: "ssl ?c = Some p" "p \<in> live (hist s)" by auto
  from assms(1) have d: "distinct (map ssl (take i ?cs @ ?c # drop (Suc i) ?cs))"
    using cs by (simp add: tls_good_def)
  have im: "ssl ` set ?cs = insert (Some p) (ssl ` set (m_ClientSocket t))"
    by (subst cs) (simp add: assms(3) p(1) image_Un)
  have out: "Some p \<notin> ssl ` set (m_ClientSocket t)" using d by (auto simp: assms(3) p(1))
  have "live (hist t) = live (hist s) - {p}"
    by (simp add: assms(4) live_append live_steady [OF assms(5)] release_events_def p(1))
  then have "Some ` live (hist t) = ssl ` set ?cs - {Some p}"
    using assms(1) by (simp add: tls_good_def image_set_diff)
  then have "Some ` live (hist t) = ssl ` set (m_ClientSocket t)" using im out by simp
  moreover have "valid_from (live (hist s)) pre"
    by (rule valid_steady [OF assms(5)]) (use assms(1,6) in \<open>auto simp: tls_good_def\<close>)
  then have "valid_from (live (hist s)) (pre @ release_events ?c)"
    using p by (simp add: valid_from_append live_steady [OF assms(5)] release_events_def)
  then have "valid (hist t)" using assms(1) by (simp add: assms(4) tls_good_def valid_append)
  ultimately show ?thesis using d by (simp add: tls_good_def assms(3))
qed

lemma tls_good_drop:
  assumes "drop_client i s = Inr t" and "i < length (m_ClientSocket s)" and "tls_good s"
  shows "tls_good t"
  using assms(1,2)
proof (rule drop_client_eq, goal_cases)
  case (1 tr)
  have "ssl (m_ClientSocket s ! i) \<in> Some ` live (hist s)"
    using assms(2,3) by (simp add: tls_good_def)
  with 1 show ?case
    by (intro tls_good_release [OF assms(3,2), of t "close_socket (m_ClientSocket s ! i) []"])
      (auto simp: close_socket_def)
qed

lemma tls_good_read:
  assumes "SSL_read_call E (ssl (m_ClientSocket s ! i)) s = (bs, s1)" and "i < length (m_ClientSocket s)"
    and "tls_good s"
  shows "tls_good s1" and "m_ClientSocket s1 = m_ClientSocket s"
proof -
  note s1 = SSL_read_call_eq(1) [OF assms(1)]
  show "m_ClientSocket s1 = m_ClientSocket s" by (simp add: s1)
  show "tls_good s1"
    using assms(3)
    by (rule tls_good_event [of _ _ "Ev_SSL_read (ssl (m_ClientSocket s ! i)) bs"])
      (use assms(2) in \<open>simp_all add: s1\<close>)
qed

section \<open>Every run\<close>

interpretation tls: turn_invariant E "\<lambda>s. alloc_fresh E \<longrightarrow> tls_good s" for E
proof (unfold_locales, goal_cases)
  case (1 s t)
  from 1(1) show ?case by (rule PoolActivity_eq) (use 1(2) tls_good_event [of s t] in auto)
next
  case (2 s t)
  from 2(1) show ?case
  proof (rule HandleNewConnections_eq, goal_cases)
    case (2 fd)
    with \<open>alloc_fresh E \<longrightarrow> tls_good s\<close> show ?case using tls_good_event [of s t] by auto
  next
    case (3 fd)
    let ?s = "s\<lparr>hist := hist s @ [Ev_accept (m_MasterSocket s) fd]\<rparr>"
    have "tls_good ?s" if "tls_good s" using that by (rule tls_good_event [of _ _ "Ev_accept (m_MasterSocket s) fd"]) simp_all
    with 3 \<open>alloc_fresh E \<longrightarrow> tls_good s\<close> show ?case by (auto intro: tls_good_admit)
  qed (use 2(2) in simp)
next
  case (3 i s bs s1 t)
  with tls_good_read [OF 3(2,1)] show ?case by (auto intro: serve_tls_good)
next
  case (4 i s s1 t)
  with tls_good_read [OF 4(2,1)] show ?case by (auto intro: tls_good_drop)
next
  case (5 i s t)
  then show ?case by (auto intro: tls_good_drop)
next
  case (6 s)
  have "tls_good (ClosingRequested s)" if "tls_good s"
    using that
    by (rule tls_good_steady [of s _ "concat (map (\<lambda>c. [Ev_shutdown (socket c), Ev_close (socket c)]) (m_ClientSocket s))"])
      (auto simp: ClosingRequested_def fold_close_socket list_all_iff)
  with 6 show ?case by blast
next
  case (7 s)
  then show ?case by (simp add: CloseServer_def tls_good_def)
qed

lemma startup_tls_good: "startup B = Done s0 \<Longrightarrow> tls_good s0"
  by (subst startup_Done(1)) (simp_all add: tls_good_def live_def Server_new_def)

section \<open>Properties\<close>


lemma live_created: "p \<in> fold live_step h L \<Longrightarrow> p \<in> L \<or> p \<le> sum_list (map created_of h)"
proof (induction h arbitrary: L)
  case (Cons e h)
  then have "p \<in> live_step e L \<or> p \<le> sum_list (map created_of h)" by simp
  moreover have "p \<in> L \<or> p \<le> created_of e" if "p \<in> live_step e L"
    using that by (cases "(e, L)" rule: live_step.cases) auto
  ultimately show ?case by (auto intro: trans_le_add1 trans_le_add2)
qed simp

lemma visit_env_fresh: "alloc_fresh visit_env"
  using live_created [of _ _ "{}"] by (fastforce simp: alloc_fresh_def visit_env_def live_def)


end
