(* ===== verification/Client_Program.thy ===== *)
theory Client_Program
  imports Wire_Protocol Number_Parser
begin

text \<open>
  \<open>src/client/Client.{h,cpp}\<close>: connecting, the requests the client sends, and what it makes
  of a packet from the server. Sockets, OpenSSL, the clock and the SHA-256 digest are
  parameters. What is printed is kept as a list of \<open>view\<close>s, each with the variable parts of
  one output statement; the fixed words around them are left out.
\<close>

section \<open>State\<close>

text \<open>A pointer member of the client: never set, null, set, or set and freed.\<close>

datatype ptr_state = Ptr_uninit | Ptr_null | Ptr_live | Ptr_freed

datatype view =
    Echo_line bytes | Message_line bytes | Motd_line bytes | Result_line string
  | Broadcast_line bytes | Client_list bytes | Private_status string
  | Private_message u64 bytes | Ping_line int | Uptime_line bytes | Counter_line string
  | Room_joined string | Room_refused u8 string | Said | Say_refused u8 string
  | Room_line bytes | Unknown_opcode u16 | Invalid_packet
  | Notice string

datatype fd_call = Fd_shutdown u64 | Fd_close u64

text \<open>
  \<open>fd_calls\<close>, \<open>wire\<close> and \<open>console\<close> record what the client did: the calls that end its connection,
  the packets it sent and what it printed.
\<close>

record client =
  m_Sock :: u64
  cl_ctx :: ptr_state
  cl_ssl :: ptr_state
  m_pingStart :: int
  fd_calls :: "fd_call list"
  wire :: "bytes list"
  console :: "view list"

record client_env =
  c_host :: endian
  c_fpe :: fp_env
  SHA256 :: "bytes \<Rightarrow> bytes"
  c_now :: "client \<Rightarrow> int"
  c_write_ret :: "client \<Rightarrow> bytes \<Rightarrow> int"

definition Client_new :: client where
  "Client_new =
     \<lparr>m_Sock = 0, cl_ctx = Ptr_uninit, cl_ssl = Ptr_uninit, m_pingStart = 0,
      fd_calls = [], wire = [], console = []\<rparr>"

definition notice :: "string \<Rightarrow> client \<Rightarrow> client" where
  "notice txt cl = cl\<lparr>console := console cl @ [Notice txt]\<rparr>"

section \<open>Connecting and leaving\<close>

record connect_env =
  sock_ret :: int
  pton_ok :: bool
  connect_ok :: bool
  c_ctx_new_ok :: bool
  c_min_proto_ok :: bool
  ca_ok :: bool
  ssl_new_ok :: bool
  set_fd_ok :: bool
  set_host_ok :: bool
  handshake_ok :: bool
  verify_ok :: bool

text \<open>
  The descriptor is kept in an unsigned member, so the test for a negative result, done on
  the member, never succeeds; the exception it guards is not thrown.
\<close>

definition initClientConnection :: "connect_env \<Rightarrow> client \<Rightarrow> fault + bool \<times> client" where
  "initClientConnection N cl =
     (let cl1 = cl\<lparr>m_Sock := word_of_int (sock_ret N)\<rparr>
      in if m_Sock cl1 < 0 then Inl (Runtime_error ''err_socket_creation'')
         else if \<not> pton_ok N then Inr (False, notice ''Invalid address/ Address not supported'' cl1)
         else if sock_ret N < 0 \<or> \<not> connect_ok N then Inr (False, notice ''Connection Failed: '' cl1)
         else Inr (True, cl1))"

text \<open>\<open>create_tls_connection\<close>: the new TLS object, or null after freeing it.\<close>

definition create_tls_connection :: "connect_env \<Rightarrow> ptr_state" where
  "create_tls_connection N =
     (if \<not> ssl_new_ok N then Ptr_null
      else if \<not> set_fd_ok N then Ptr_null
      else if \<not> set_host_ok N then Ptr_null
      else if \<not> handshake_ok N then Ptr_null
      else if \<not> verify_ok N then Ptr_null
      else Ptr_live)"

definition initTLS :: "connect_env \<Rightarrow> client \<Rightarrow> bool \<times> client" where
  "initTLS N cl =
     (if \<not> c_ctx_new_ok N then (False, cl\<lparr>cl_ctx := Ptr_null\<rparr>)
      else if \<not> c_min_proto_ok N then (False, cl\<lparr>cl_ctx := Ptr_freed\<rparr>)
      else if \<not> ca_ok N then (False, notice ''Failed to load CA trust store'' (cl\<lparr>cl_ctx := Ptr_freed\<rparr>))
      else
        (let cl1 = notice ''CA certificate loaded'' (cl\<lparr>cl_ctx := Ptr_live, cl_ssl := create_tls_connection N\<rparr>)
         in if cl_ssl cl1 = Ptr_null
            then (False, cl1\<lparr>fd_calls := fd_calls cl1 @ [Fd_close (m_Sock cl1)], cl_ctx := Ptr_freed\<rparr>)
            else (True, cl1)))"

text \<open>
  The destructor shuts down and closes the connection, then tests both pointers and releases what they point to; the context, which
  is counted, stays alive inside the TLS object until that is freed.
\<close>

definition release_ptr :: "ptr_state \<Rightarrow> fault + unit" where
  "release_ptr p =
     (case p of
        Ptr_null \<Rightarrow> Inr ()
      | Ptr_live \<Rightarrow> Inr ()
      | Ptr_freed \<Rightarrow> Inl Use_after_free
      | Ptr_uninit \<Rightarrow> Inl Uninitialised)"

definition Client_destroy :: "client \<Rightarrow> fault + client" where
  "Client_destroy cl =
     (let cl1 = cl\<lparr>fd_calls := fd_calls cl @ [Fd_shutdown (m_Sock cl), Fd_close (m_Sock cl)]\<rparr>
      in case release_ptr (cl_ctx cl1) of
           Inl f \<Rightarrow> Inl f
         | Inr _ \<Rightarrow> (case release_ptr (cl_ssl cl1) of Inl f \<Rightarrow> Inl f | Inr _ \<Rightarrow> Inr cl1))"

section \<open>Requests\<close>

definition sendSSLPacketToServer :: "client_env \<Rightarrow> bytes \<Rightarrow> client \<Rightarrow> client" where
  "sendSSLPacketToServer X packet cl =
     (let sent = c_write_ret X cl packet; cl1 = cl\<lparr>wire := wire cl @ [packet]\<rparr>
      in if sent \<le> 0 then notice ''SSL_write() failed.'' cl1
         else if sent \<noteq> int (length packet) then notice ''SSL_write() sent only a part'' cl1
         else cl1)"

definition sendSSLOpcodeToServer :: "client_env \<Rightarrow> eOpcodes \<Rightarrow> client \<Rightarrow> client" where
  "sendSSLOpcodeToServer X op cl = sendSSLPacketToServer X (packet_header (c_host X) op) cl"

definition sendEchoRequest :: "client_env \<Rightarrow> bytes \<Rightarrow> client \<Rightarrow> client" where
  "sendEchoRequest X msg cl =
     sendSSLPacketToServer X (packet_header (c_host X) CMSG_ECHO_REQUEST @ msg) cl"

fun append_numbers :: "endian \<Rightarrow> Number list \<Rightarrow> bytes \<Rightarrow> bytes" where
  "append_numbers e [] packet = packet"
| "append_numbers e (num # nums) packet =
     append_numbers e nums (append_number e (packet @ [type_code (get_number_type num)]) num)"

definition sendAdditionRequest :: "client_env \<Rightarrow> Number list \<Rightarrow> client \<Rightarrow> client" where
  "sendAdditionRequest X numbers cl =
     (if length numbers < 2 then notice ''Not enough numbers to send, aborting server call...'' cl
      else
        (let packet = append_numbers (c_host X) numbers (packet_header (c_host X) CMSG_ADDITION_REQUEST)
         in if 4096 < length packet then notice ''Too much numbers to send, aborting server call...'' cl
            else sendSSLPacketToServer X packet cl))"

definition sendBroadcast :: "client_env \<Rightarrow> bytes \<Rightarrow> client \<Rightarrow> client" where
  "sendBroadcast X msg cl =
     sendSSLPacketToServer X (packet_header (c_host X) CMSG_BROADCAST_MESSAGE @ msg) cl"

definition sendPing :: "client_env \<Rightarrow> client \<Rightarrow> client" where
  "sendPing X cl = sendSSLOpcodeToServer X CMSG_PING (cl\<lparr>m_pingStart := c_now X cl\<rparr>)"

definition sendUptime :: "client_env \<Rightarrow> client \<Rightarrow> client" where
  "sendUptime X cl = sendSSLOpcodeToServer X CMSG_UPTIME cl"

definition sendIncrementCounter :: "client_env \<Rightarrow> client \<Rightarrow> client" where
  "sendIncrementCounter X cl = sendSSLOpcodeToServer X CMSG_INCREMENT_COUNTER cl"

definition sendGetCounter :: "client_env \<Rightarrow> client \<Rightarrow> client" where
  "sendGetCounter X cl = sendSSLOpcodeToServer X CMSG_GET_COUNTER cl"

definition sendGetClients :: "client_env \<Rightarrow> client \<Rightarrow> client" where
  "sendGetClients X cl = sendSSLOpcodeToServer X CMSG_GET_CLIENT_LIST cl"

definition sendClientMessage :: "client_env \<Rightarrow> u64 \<Rightarrow> bytes \<Rightarrow> client \<Rightarrow> client" where
  "sendClientMessage X cid msg cl =
     sendSSLPacketToServer X
       (packet_header (c_host X) CMSG_SEND_MSG_TO_CLIENT @ mem_bytes (c_host X) cid @ msg) cl"

definition sendGetChatRooms :: "client_env \<Rightarrow> client \<Rightarrow> client" where
  "sendGetChatRooms X cl = sendSSLOpcodeToServer X CMSG_GET_CHAT_ROOMS cl"

definition sendGetRoomInfo :: "client_env \<Rightarrow> client \<Rightarrow> client" where
  "sendGetRoomInfo X cl = sendSSLOpcodeToServer X CMSG_GET_ROOM_INFO cl"

definition sendJoinRoomRequest :: "client_env \<Rightarrow> u8 \<Rightarrow> bytes \<Rightarrow> client \<Rightarrow> client" where
  "sendJoinRoomRequest X roomID password cl =
     sendSSLPacketToServer X
       (packet_header (c_host X) CMSG_JOIN_ROOM @ [roomID] @ SHA256 X password)
       (notice (''Request Joining: '' @ show_nat (unat roomID)) cl)"

definition sendChatSay :: "client_env \<Rightarrow> bytes \<Rightarrow> client \<Rightarrow> client" where
  "sendChatSay X msg cl = sendSSLPacketToServer X (packet_header (c_host X) CMSG_SAY @ msg) cl"

section \<open>Replies\<close>

text \<open>
  A copy out of a string's storage may include the NUL byte that ends it, and no more.
\<close>

definition from_payload :: "bytes \<Rightarrow> nat \<Rightarrow> fault + bytes" where
  "from_payload payload n = read_at (payload @ [0]) 0 n"

definition addition_view :: "client_env \<Rightarrow> bytes \<Rightarrow> fault + view" where
  "addition_view X payload =
     (if length payload < 8 then Inl (Runtime_error ''Payload too small for double'')
      else Inr (Result_line (show_double (of_mem (c_host X) (take 8 payload)))))"

definition list_entry :: "u64 \<Rightarrow> bytes \<Rightarrow> bytes" where
  "list_entry cid nm = ascii (''['' @ show_nat (unat cid) @ ''] '') @ nm @ ascii ''\<newline>''"

function client_list_loop :: "endian \<Rightarrow> bytes \<Rightarrow> nat \<Rightarrow> bytes \<Rightarrow> bytes" where
  "client_list_loop e payload offset clientList =
     (if offset < length payload then
        (if length payload < offset + 8 + 2 then clientList
         else
           (let cid = to_net e (of_mem e (take 8 (drop offset payload)));
                usernameSize = unat (to_net e (of_mem e (take 2 (drop (offset + 8) payload))) :: u16);
                offset2 = offset + 8 + 2
            in if length payload < offset2 + usernameSize then clientList
               else client_list_loop e payload (offset2 + usernameSize)
                      (clientList @ list_entry cid (take usernameSize (drop offset2 payload)))))
      else clientList)"
  by pat_completeness auto
termination
  by (relation "measure (\<lambda>(e, payload, offset, acc). length payload - offset)") auto

declare client_list_loop.simps [simp del]

definition client_list_view :: "endian \<Rightarrow> bytes \<Rightarrow> fault + view" where
  "client_list_view e payload =
     (case from_payload payload 1 of
        Inl f \<Rightarrow> Inl f
      | Inr eb \<Rightarrow>
          (let error = hd eb;
               clientList =
                 (if error = err_code ERR_OK then ascii ''[valid client list]\<newline>''
                  else if error = err_code ERR_NO_CLIENT_FOUND then ascii ''[no client found]\<newline>''
                  else if error = err_code ERR_TOO_MUCH_CLIENTS then ascii ''[too much clients]\<newline>''
                  else ascii (''[error: '' @ show_nat (unat error) @ '']\<newline>''))
           in Inr (Client_list
                (if error = err_code ERR_OK then client_list_loop e payload 1 clientList else clientList))))"

definition private_status_view :: "bytes \<Rightarrow> fault + view" where
  "private_status_view payload =
     (case from_payload payload 1 of
        Inl f \<Rightarrow> Inl f
      | Inr eb \<Rightarrow>
          (let error = hd eb
           in Inr (Private_status
                (if error = err_code ERR_OK then ''[OK]\<newline>''
                 else if error = err_code ERR_NO_CLIENT_FOUND then ''[no client found]\<newline>''
                 else if error = err_code ERR_MSG_TO_SELF then ''[message to self]\<newline>''
                 else if error = err_code ERR_EMPTY_MESSAGE then ''[empty message]\<newline>''
                 else ''[error: '' @ show_nat (unat error) @ '']\<newline>''))))"

text \<open>
  The length of the text is computed in an unsigned type; below eight bytes it wraps, and
  the string constructor throws.
\<close>

definition private_message_view :: "endian \<Rightarrow> bytes \<Rightarrow> fault + view" where
  "private_message_view e payload =
     (case from_payload payload 8 of
        Inl f \<Rightarrow> Inl f
      | Inr idb \<Rightarrow>
          (if length payload < 8 then Inl Length_error
           else Inr (Private_message (of_mem e idb) (drop 8 payload))))"

definition counter_view :: "endian \<Rightarrow> bytes \<Rightarrow> fault + view" where
  "counter_view e payload =
     (case from_payload payload 8 of
        Inl f \<Rightarrow> Inl f
      | Inr vb \<Rightarrow> Inr (Counter_line (show_nat (unat (of_mem e vb :: u64)))))"

definition join_ok_view :: "bytes \<Rightarrow> fault + view" where
  "join_ok_view payload =
     (case from_payload payload 1 of
        Inl f \<Rightarrow> Inl f
      | Inr vb \<Rightarrow> Inr (Room_joined (show_nat (unat (hd vb)))))"

definition join_err_view :: "bytes \<Rightarrow> fault + view" where
  "join_err_view payload =
     (case from_payload payload 1 of
        Inl f \<Rightarrow> Inl f
      | Inr vb \<Rightarrow>
          (let value = hd vb
           in Inr (Room_refused value
                (if value = err_code ERR_INVALID_ROOM then ''Invalid room ID.''
                 else if value = err_code ERR_INVALID_ROOM_PASSWORD then ''Invalid room password.''
                 else if value = err_code ERR_INVALID_PACKET then ''Invalid join request.''
                 else ''Something went wrong.''))))"

definition say_err_view :: "bytes \<Rightarrow> fault + view" where
  "say_err_view payload =
     (case from_payload payload 1 of
        Inl f \<Rightarrow> Inl f
      | Inr vb \<Rightarrow>
          (let value = hd vb
           in Inr (Say_refused value
                (if value = err_code ERR_INVALID_ROOM then ''Invalid room ID.''
                 else if value = err_code ERR_NO_ROOM_JOINED then ''No room joined.''
                 else ''Something went wrong.''))))"

text \<open>The switch over the opcode; the round-trip time is kept in microseconds.\<close>

definition decode_reply :: "client_env \<Rightarrow> bytes \<Rightarrow> client \<Rightarrow> fault + view" where
  "decode_reply X pkt cl =
     (let oc = header_opcode (c_host X) pkt; payload = drop 2 pkt
      in if oc = opcode SMSG_ECHO_REQUEST then Inr (Echo_line payload)
         else if oc = opcode SMSG_MESSAGE then Inr (Message_line payload)
         else if oc = opcode SMSG_MOTD then Inr (Motd_line payload)
         else if oc = opcode SMSG_ADDITION_REQUEST then addition_view X payload
         else if oc = opcode SMSG_BROADCAST then Inr (Broadcast_line payload)
         else if oc = opcode SMSG_CLIENT_LIST then client_list_view (c_host X) payload
         else if oc = opcode SMSG_PRIVATE_MSG_ERR then private_status_view payload
         else if oc = opcode SMSG_PRIVATE_MESSAGE then private_message_view (c_host X) payload
         else if oc = opcode SMSG_PONG then Inr (Ping_line (c_div (c_now X cl - m_pingStart cl) 1000))
         else if oc = opcode SMSG_UPTIME then Inr (Uptime_line payload)
         else if oc = opcode SMSG_COUNTER then counter_view (c_host X) payload
         else if oc = opcode SMSG_JOIN_CHAT_ROOM_OK then join_ok_view payload
         else if oc = opcode SMSG_JOIN_CHAT_ROOM_ERR then join_err_view payload
         else if oc = opcode SMSG_SAY_OK then Inr Said
         else if oc = opcode SMSG_SAY_ERR then say_err_view payload
         else if oc = opcode SMSG_SAY then Inr (Room_line payload)
         else Inr (Unknown_opcode oc))"

section \<open>Polling for a reply\<close>

datatype read_error = Want_read | Want_write | Zero_return | Other_error int

record reply_env =
  r_poll :: int
  r_eintr :: bool
  r_nval :: bool
  r_err :: bool
  r_in_hup :: bool
  r_read :: "bytes + read_error"

datatype reply_result = Continue client | Exit_with int

definition SSL_read_error_notice :: "read_error \<Rightarrow> client \<Rightarrow> client" where
  "SSL_read_error_notice err cl =
     (case err of
        Want_read \<Rightarrow> cl
      | Want_write \<Rightarrow> cl
      | Zero_return \<Rightarrow> notice ''Server disconnected'' cl
      | Other_error n \<Rightarrow> notice (''SSL_read() failed. SSL error: '' @ show_int n) cl)"

definition processReplyFromServerIfAny :: "client_env \<Rightarrow> reply_env \<Rightarrow> client \<Rightarrow> fault + reply_result" where
  "processReplyFromServerIfAny X R cl =
     (if r_poll R < 0 then
        Inr (Continue (if r_eintr R then cl else notice ''poll() failed: '' cl))
      else if r_poll R = 0 then Inr (Continue cl)
      else if r_nval R then Inr (Continue (notice ''Invalid socket'' cl))
      else if r_err R then Inr (Exit_with 1)
      else if \<not> r_in_hup R then Inr (Continue cl)
      else
        (case r_read R of
           Inr err \<Rightarrow> Inr (Continue (SSL_read_error_notice err cl))
         | Inl got \<Rightarrow>
             (let pkt = take 4096 got
              in if 2 \<le> length pkt then
                   (case decode_reply X pkt cl of
                      Inl f \<Rightarrow> Inl f
                    | Inr v \<Rightarrow> Inr (Continue (cl\<lparr>console := console cl @ [v]\<rparr>)))
                 else Inr (Continue (cl\<lparr>console := console cl @ [Invalid_packet]\<rparr>)))))"

section \<open>Properties\<close>

lemma append_numbers_eq: "append_numbers e nums packet = packet @ concat (map (tagged e) nums)"
  by (induction nums arbitrary: packet) (simp_all add: append_number_def tagged_def)

lemma wire_send [simp]: "wire (sendSSLPacketToServer X p cl) = wire cl @ [p]"
  by (simp add: sendSSLPacketToServer_def Let_def notice_def)

lemma wire_notice [simp]: "wire (notice t cl) = wire cl"
  by (simp add: notice_def)

lemma length_concat_tagged_upper: "length (concat (map (tagged e) ns)) \<le> 9 * length ns"
proof (induction ns)
  case (Cons n ns)
  with length_tagged [of e n] show ?case by simp
qed simp

text \<open>
  C36. The client sends an addition request exactly if there are at least two numbers and
  the packet fits the server's receive buffer; then it sends one packet, the opcode
  followed by every number with its type in front. Up to 454 numbers always fit, and what
  is sent is never shorter than the six bytes the server demands.
\<close>

theorem addition_request_bounds:
  "wire (sendAdditionRequest X nums cl) = wire cl @
     (if 2 \<le> length nums \<and> 2 + length (concat (map (tagged (c_host X)) nums)) \<le> 4096
      then [packet_header (c_host X) CMSG_ADDITION_REQUEST @ concat (map (tagged (c_host X)) nums)] else [])
   \<and> (length nums \<le> 454 \<longrightarrow> 2 + length (concat (map (tagged (c_host X)) nums)) \<le> 4096)
   \<and> (2 \<le> length nums \<longrightarrow> 6 \<le> 2 + length (concat (map (tagged (c_host X)) nums)))"
proof (intro conjI impI)
  show "wire (sendAdditionRequest X nums cl) = wire cl @
     (if 2 \<le> length nums \<and> 2 + length (concat (map (tagged (c_host X)) nums)) \<le> 4096
      then [packet_header (c_host X) CMSG_ADDITION_REQUEST @ concat (map (tagged (c_host X)) nums)] else [])"
    by (auto simp: sendAdditionRequest_def append_numbers_eq Let_def)
  show "2 + length (concat (map (tagged (c_host X)) nums)) \<le> 4096" if "length nums \<le> 454"
    using that length_concat_tagged_upper [of "c_host X" nums] by linarith
  show "6 \<le> 2 + length (concat (map (tagged (c_host X)) nums))" if "2 \<le> length nums"
    using that concat_tagged_length [of nums "c_host X"] by linarith
qed

theorem addition_request_bounds_witness:
  "(let X = \<lparr>c_host = Little_endian, c_fpe = sse_fp_env, SHA256 = (\<lambda>bs. replicate 32 0),
        c_now = (\<lambda>cl. 0), c_write_ret = (\<lambda>cl p. int (length p))\<rparr>
    in wire (sendAdditionRequest X [Uint8 1, Uint8 2] Client_new) =
         [packet_header Little_endian CMSG_ADDITION_REQUEST @ [1, 1, 1, 2]])"
  using addition_request_bounds [of "\<lparr>c_host = Little_endian, c_fpe = sse_fp_env,
      SHA256 = (\<lambda>bs. replicate 32 0), c_now = (\<lambda>cl. 0), c_write_ret = (\<lambda>cl p. int (length p))\<rparr>"
      "[Uint8 1, Uint8 2]" Client_new]
  by (simp add: tagged_def Client_new_def)

lemma from_payload_eq:
  "from_payload payload n = (if n \<le> Suc (length payload) then Inr (take n (payload @ [0])) else Inl Out_of_bounds)"
  by (simp add: from_payload_def read_at_def)

lemmas view_defs =
  addition_view_def client_list_view_def private_status_view_def private_message_view_def
  counter_view_def join_ok_view_def join_err_view_def say_err_view_def

lemma total_views:
  "addition_view X p = Inl f \<longleftrightarrow> length p < 8 \<and> f = Runtime_error ''Payload too small for double''"
  "private_message_view e p = Inl f \<longleftrightarrow> length p < 8 \<and> f = (if length p < 7 then Out_of_bounds else Length_error)"
  "counter_view e p = Inl f \<longleftrightarrow> length p < 7 \<and> f = Out_of_bounds"
  "client_list_view e p \<noteq> Inl f" "private_status_view p \<noteq> Inl f" "join_ok_view p \<noteq> Inl f"
  "join_err_view p \<noteq> Inl f" "say_err_view p \<noteq> Inl f"
  by (auto simp: view_defs from_payload_eq Let_def)

lemma decode_reply_Inl_iff:
  "decode_reply X pkt cl = Inl f \<longleftrightarrow>
     (header_opcode (c_host X) pkt = opcode SMSG_ADDITION_REQUEST \<and> length (drop 2 pkt) < 8
        \<and> f = Runtime_error ''Payload too small for double'')
   \<or> (header_opcode (c_host X) pkt = opcode SMSG_PRIVATE_MESSAGE \<and> length (drop 2 pkt) < 8
        \<and> f = (if length (drop 2 pkt) < 7 then Out_of_bounds else Length_error))
   \<or> (header_opcode (c_host X) pkt = opcode SMSG_COUNTER \<and> length (drop 2 pkt) < 7 \<and> f = Out_of_bounds)"
  unfolding decode_reply_def Let_def
  by (auto simp del: length_drop simp: total_views)

text \<open>At most one more line on the console, and nothing else.\<close>

definition prints :: "client \<Rightarrow> client \<Rightarrow> bool" where
  "prints cl cl' \<longleftrightarrow> (\<exists>vs. length vs \<le> 1 \<and> cl' = cl\<lparr>console := console cl @ vs\<rparr>)"

lemma prints_simps [simp]: "prints cl cl" "prints cl (cl\<lparr>console := console cl @ [v]\<rparr>)" "prints cl (notice t cl)"
proof -
  show "prints cl cl" unfolding prints_def by (rule exI [of _ "[]"]) simp
  show line: "prints cl (cl\<lparr>console := console cl @ [v]\<rparr>)" for v
    unfolding prints_def by (rule exI [of _ "[v]"]) simp
  show "prints cl (notice t cl)" unfolding notice_def by (rule line)
qed

lemma prints_error [simp]: "prints cl (SSL_read_error_notice er cl)"
  by (cases er) (simp_all add: SSL_read_error_notice_def)

text \<open>
  C34. Which polls of the connection end the client program, and how. An error on the socket
  makes it exit. A packet makes it fail exactly if it is an addition result or a private
  message with fewer than eight bytes behind the opcode, or a counter with fewer than
  seven: the first throws, the others read past the end of the payload or, with one byte
  missing, ask for a string of impossible length. Whatever else arrives, it goes on, with
  what it sent and its connection unchanged and at most one more line on the console.
\<close>

theorem reply_poll_outcomes:
  "(processReplyFromServerIfAny X R cl = Inl f \<longleftrightarrow>
      0 < r_poll R \<and> \<not> r_nval R \<and> \<not> r_err R \<and> r_in_hup R
      \<and> (\<exists>got. r_read R = Inl got \<and> 2 \<le> length got \<and>
            (let oc = header_opcode (c_host X) (take 4096 got); k = length (drop 2 (take 4096 got))
             in oc = opcode SMSG_ADDITION_REQUEST \<and> k < 8 \<and> f = Runtime_error ''Payload too small for double''
              \<or> oc = opcode SMSG_PRIVATE_MESSAGE \<and> k < 8 \<and> f = (if k < 7 then Out_of_bounds else Length_error)
              \<or> oc = opcode SMSG_COUNTER \<and> k < 7 \<and> f = Out_of_bounds)))
   \<and> (processReplyFromServerIfAny X R cl = Inr (Exit_with n) \<longleftrightarrow>
        n = 1 \<and> 0 < r_poll R \<and> \<not> r_nval R \<and> r_err R)
   \<and> (case processReplyFromServerIfAny X R cl of Inr (Continue cl') \<Rightarrow> prints cl cl' | _ \<Rightarrow> True)"
proof -
  consider (early) "\<not> (0 < r_poll R \<and> \<not> r_nval R \<and> \<not> r_err R \<and> r_in_hup R)"
    | (read) "0 < r_poll R" "\<not> r_nval R" "\<not> r_err R" "r_in_hup R" by blast
  then show ?thesis
  proof cases
    case early
    then show ?thesis
      by (auto simp: processReplyFromServerIfAny_def)
  next
    case read
    show ?thesis
    proof (cases "r_read R")
      case (Inr er)
      with read show ?thesis by (simp add: processReplyFromServerIfAny_def)
    next
      case (Inl got)
      then show ?thesis
        using read decode_reply_Inl_iff [of X "take 4096 got" cl f]
        by (cases "decode_reply X (take 4096 got) cl")
          (auto simp: processReplyFromServerIfAny_def Let_def simp del: length_drop)
    qed
  qed
qed

end
