(* ===== verification/Client_CLI.thy ===== *)
theory Client_CLI
  imports Client_Program
begin

text \<open>
  The command line of the client, \<open>src/client/Main.cpp\<close>: splitting a line into words,
  finding the command, the handlers of the commands, and the loop over the input. The
  thread that polls for replies is a separate activity (\<open>processReplyFromServerIfAny\<close>); the
  two share the flag \<open>g_Running\<close>, the TLS object and the console.
\<close>

section \<open>Words\<close>

text \<open>\<open>iss >> token\<close>: skip white space, then take everything up to the next.\<close>

function tokenize :: "string \<Rightarrow> string list" where
  "tokenize line =
     (let rest = dropWhile is_space line
      in if rest = [] then []
         else takeWhile (\<lambda>c. \<not> is_space c) rest # tokenize (dropWhile (\<lambda>c. \<not> is_space c) rest))"
  by pat_completeness auto
termination
proof (relation "measure length", goal_cases)
  case (2 line rest)
  then have "rest \<noteq> []" and "\<not> is_space (hd rest)" using hd_dropWhile [of is_space line] by auto
  then have "length (dropWhile (\<lambda>c. \<not> is_space c) rest) < length rest"
    by (cases rest) (simp_all add: less_Suc_eq_le length_dropWhile_le)
  moreover have "length rest \<le> length line" using 2 by (simp add: length_dropWhile_le)
  ultimately show ?case by simp
qed simp

declare tokenize.simps [simp del]

section \<open>Finding the command\<close>

text \<open>The names that \<open>main\<close> registers.\<close>

definition commands :: "string list" where
  "commands =
     [''echo'', ''add'', ''broadcast'', ''ping'', ''uptime'', ''counter'', ''counter increment'',
      ''counter get'', ''client'', ''client get-clients'', ''client set-username'',
      ''client send-msg'', ''chat'', ''chat get-rooms'', ''chat info'', ''chat join'', ''chat say'',
      ''help'']"

text \<open>The inner loop: the first words up to index \<open>i\<close>, joined by spaces.\<close>

fun candidate_loop :: "string list \<Rightarrow> bool \<Rightarrow> string \<Rightarrow> string" where
  "candidate_loop [] first candidate = candidate"
| "candidate_loop (a # as) first candidate =
     candidate_loop as False ((if first then candidate else candidate @ '' '') @ a)"

definition candidate :: "string list \<Rightarrow> nat \<Rightarrow> string" where
  "candidate args i = candidate_loop (take (Suc i) args) True []"

text \<open>The outer loop, with the command found so far and its arguments.\<close>

function match_loop :: "string list \<Rightarrow> nat \<Rightarrow> string \<times> string list \<Rightarrow> string \<times> string list" where
  "match_loop args i found =
     (if i < length args then
        match_loop args (Suc i)
          (if candidate args i \<in> set commands then (candidate args i, drop (Suc i) args) else found)
      else found)"
  by pat_completeness auto
termination
  by (relation "measure (\<lambda>(args, i, found). length args - i)") auto

declare match_loop.simps [simp del]

definition find_command :: "string list \<Rightarrow> string \<times> string list" where
  "find_command args = match_loop args 0 ([], [])"

section \<open>Handlers\<close>

fun join_args :: "string list \<Rightarrow> bytes \<Rightarrow> bytes" where
  "join_args [] acc = acc"
| "join_args (arg # args) acc = join_args args (acc @ ascii arg @ ascii '' '')"

fun parse_numbers :: "fp_env \<Rightarrow> string list \<Rightarrow> fault + Number list" where
  "parse_numbers P [] = Inr []"
| "parse_numbers P (arg # args) =
     (case parse_number P arg of
        Inl f \<Rightarrow> Inl f
      | Inr n \<Rightarrow> (case parse_numbers P args of Inl f \<Rightarrow> Inl f | Inr ns \<Rightarrow> Inr (n # ns)))"

text \<open>The text of an exception, as the handlers print it.\<close>

fun what :: "fault \<Rightarrow> string" where
  "what (Runtime_error m) = m"
| "what (Invalid_argument m) = m"
| "what (Out_of_range m) = m"
| "what _ = []"

definition cmd_add :: "client_env \<Rightarrow> string list \<Rightarrow> client \<Rightarrow> fault + client" where
  "cmd_add X args cl =
     (if length args < 2 then Inl (Runtime_error ''usage: add <a> <b> ...'')
      else case parse_numbers (c_fpe X) args of
             Inl f \<Rightarrow> Inr (notice (''invalid numbers: '' @ what f) cl)
           | Inr nums \<Rightarrow> Inr (sendAdditionRequest X nums cl))"

text \<open>
  The number stays the default alternative, a signed zero, when its text is refused.
\<close>

definition number_arg :: "client_env \<Rightarrow> string \<Rightarrow> client \<Rightarrow> bool \<times> Number \<times> client" where
  "number_arg X arg cl =
     (case parse_number (c_fpe X) arg of
        Inl f \<Rightarrow> (False, Int8 0, notice (''invalid room number: '' @ what f) cl)
      | Inr n \<Rightarrow> (True, n, cl))"

text \<open>The conversion is only reached for the unsigned alternatives.\<close>

primrec number_to_u64 :: "Number \<Rightarrow> u64" where
  "number_to_u64 (Int8 w) = word_of_int (sint w)"
| "number_to_u64 (Uint8 w) = ucast w"
| "number_to_u64 (Int16 w) = word_of_int (sint w)"
| "number_to_u64 (Uint16 w) = ucast w"
| "number_to_u64 (Int32 w) = word_of_int (sint w)"
| "number_to_u64 (Uint32 w) = ucast w"
| "number_to_u64 (Int64 w) = w"
| "number_to_u64 (Uint64 w) = w"
| "number_to_u64 (Float w) = 0"
| "number_to_u64 (Double w) = 0"

definition cmd_send_msg :: "client_env \<Rightarrow> string list \<Rightarrow> client \<Rightarrow> fault + client" where
  "cmd_send_msg X args cl =
     (if length args < 2 then Inl (Runtime_error ''usage: client send-msg <clientID> <msg>'')
      else
        (let (valid, num, cl1) = number_arg X (hd args) cl
         in if valid \<and> is_unsigned_integer num
            then Inr (sendClientMessage X (number_to_u64 num) (join_args (tl args) []) cl1)
            else Inr (notice (''invalid client ID: '' @ hd args) cl1)))"

definition cmd_join :: "client_env \<Rightarrow> string list \<Rightarrow> client \<Rightarrow> fault + client" where
  "cmd_join X args cl =
     (if length args \<noteq> 1 \<and> length args \<noteq> 2
      then Inl (Runtime_error ''usage: chat join <room ID> <opt: password>'')
      else
        (let (valid, num, cl1) = number_arg X (hd args) cl;
             pwd = (if length args = 2 then args ! 1 else [])
         in if valid \<and> is_unsigned_integer num \<and> is_uint8_t num
            then (case num of
                    Uint8 r \<Rightarrow> Inr (sendJoinRoomRequest X r (ascii pwd) cl1)
                  | _ \<Rightarrow> Inl (Runtime_error ''std::get: wrong index for variant''))
            else Inr (notice (''invalid room number: '' @ hd args) cl1)))"

definition run_command :: "client_env \<Rightarrow> string \<Rightarrow> string list \<Rightarrow> client \<Rightarrow> fault + client" where
  "run_command X cmd args cl =
     (if cmd = ''echo'' then Inr (sendEchoRequest X (join_args args []) cl)
      else if cmd = ''add'' then cmd_add X args cl
      else if cmd = ''broadcast'' then Inr (sendBroadcast X (join_args args []) cl)
      else if cmd = ''ping'' then Inr (sendPing X cl)
      else if cmd = ''uptime'' then Inr (sendUptime X cl)
      else if cmd = ''counter'' then Inr (notice ''Available commands for counter:'' cl)
      else if cmd = ''counter increment'' then Inr (sendIncrementCounter X cl)
      else if cmd = ''counter get'' then Inr (sendGetCounter X cl)
      else if cmd = ''client'' then Inr (notice ''Available commands for client:'' cl)
      else if cmd = ''client get-clients'' then Inr (sendGetClients X cl)
      else if cmd = ''client set-username'' then Inr (notice ''client set-username'' cl)
      else if cmd = ''client send-msg'' then cmd_send_msg X args cl
      else if cmd = ''chat'' then Inr (notice ''Available commands for chat:'' cl)
      else if cmd = ''chat get-rooms'' then Inr (sendGetChatRooms X cl)
      else if cmd = ''chat info'' then Inr (sendGetRoomInfo X cl)
      else if cmd = ''chat join'' then cmd_join X args cl
      else if cmd = ''chat say'' then Inr (sendChatSay X (join_args args []) cl)
      else if cmd = ''help'' then Inr (notice ''Available commands:'' cl)
      else Inl (Out_of_range ''unordered_map::at''))"

section \<open>The loop\<close>

text \<open>One line: \<open>None\<close> when the program is to leave the loop.\<close>

definition run_line :: "client_env \<Rightarrow> string \<Rightarrow> client \<Rightarrow> client option" where
  "run_line X line cl =
     (if line = [] then Some cl
      else
        (let args = tokenize line
         in if args = [] then Some cl
            else if hd args = ''exit'' \<or> hd args = ''quit'' then None
            else
              (let (command, commandArgs) = find_command args
               in if command = [] then Some (notice (''Unknown command: '' @ hd args) cl)
                  else (case run_command X command commandArgs cl of
                          Inl f \<Rightarrow> Some (notice (''Error: '' @ what f) cl)
                        | Inr cl1 \<Rightarrow> Some cl1))))"

text \<open>
  The input: lines, and interrupts between them. Reading goes on after an interrupt, so
  the flag is seen again only when the next line has been handled.
\<close>

datatype cli_input = Line string | Interrupt

fun run_loop :: "client_env \<Rightarrow> bool \<Rightarrow> cli_input list \<Rightarrow> client \<Rightarrow> client" where
  "run_loop X running [] cl = cl"
| "run_loop X running (Interrupt # inp) cl = run_loop X False inp cl"
| "run_loop X running (Line line # inp) cl =
     (case run_line X line cl of
        None \<Rightarrow> cl
      | Some cl1 \<Rightarrow> if running then run_loop X True inp cl1 else cl1)"

text \<open>
  The detached thread polls for replies while the flag is set. Its calls and the commands
  are taken as atomic; the events are what the two threads do, in the order they do it.
\<close>

datatype client_event = Typed cli_input | Poll reply_env

datatype client_end = Left_loop client | Exited_in_poll int

fun run_threads :: "client_env \<Rightarrow> bool \<Rightarrow> client_event list \<Rightarrow> client \<Rightarrow> fault + client_end" where
  "run_threads X running [] cl = Inr (Left_loop cl)"
| "run_threads X running (Poll R # evs) cl =
     (if running then
        (case processReplyFromServerIfAny X R cl of
           Inl f \<Rightarrow> Inl f
         | Inr (Exit_with n) \<Rightarrow> Inr (Exited_in_poll n)
         | Inr (Continue cl1) \<Rightarrow> run_threads X True evs cl1)
      else run_threads X False evs cl)"
| "run_threads X running (Typed Interrupt # evs) cl = run_threads X False evs cl"
| "run_threads X running (Typed (Line line) # evs) cl =
     (case run_line X line cl of
        None \<Rightarrow> Inr (Left_loop cl)
      | Some cl1 \<Rightarrow> if running then run_threads X True evs cl1 else Inr (Left_loop cl1))"

definition client_main :: "client_env \<Rightarrow> connect_env \<Rightarrow> cli_input list \<Rightarrow> fault + client \<times> int" where
  "client_main X N inp =
     (case initClientConnection N Client_new of
        Inl f \<Rightarrow> Inl f
      | Inr (ok, cl) \<Rightarrow>
          (let (status, cl2) =
             (if \<not> ok then (- 1, cl)
              else case initTLS N cl of
                     (ok2, cl1) \<Rightarrow> if \<not> ok2 then (- 1, cl1) else (0, run_loop X True inp cl1))
           in case Client_destroy cl2 of Inl f \<Rightarrow> Inl f | Inr cl3 \<Rightarrow> Inr (cl3, status)))"

section \<open>Properties\<close>

definition is_word :: "string \<Rightarrow> bool" where
  "is_word w \<longleftrightarrow> w \<noteq> [] \<and> (\<forall>c \<in> set w. \<not> is_space c)"

lemma is_space_blank [simp]: "is_space (CHR '' '')"
  by (simp add: is_space_def of_char_def)

lemma tokenize_words: "t \<in> set (tokenize line) \<Longrightarrow> is_word t"
proof (induction line rule: tokenize.induct)
  case (1 line)
  let ?rest = "dropWhile is_space line"
  show ?case
  proof (cases "?rest = []")
    case True
    with 1 show ?thesis by (simp add: tokenize.simps [of line])
  next
    case False
    then have "\<not> is_space (hd ?rest)" by (rule hd_dropWhile)
    with False have "is_word (takeWhile (\<lambda>c. \<not> is_space c) ?rest)"
      by (cases ?rest) (auto simp: is_word_def dest: set_takeWhileD)
    moreover from False "1.prems" have "t \<in> set (takeWhile (\<lambda>c. \<not> is_space c) ?rest #
        tokenize (dropWhile (\<lambda>c. \<not> is_space c) ?rest))"
      by (subst (asm) tokenize.simps) (simp add: Let_def del: dropWhile_eq_Nil_conv)
    ultimately show ?thesis using "1.IH" [OF refl False] by auto
  qed
qed

lemma tokenize_concat: "concat (tokenize line) = filter (\<lambda>c. \<not> is_space c) line"
proof (induction line rule: tokenize.induct)
  case (1 line)
  let ?rest = "dropWhile is_space line"
  let ?w = "takeWhile (\<lambda>c. \<not> is_space c) ?rest" and ?more = "dropWhile (\<lambda>c. \<not> is_space c) ?rest"
  have skip: "filter (\<lambda>c. \<not> is_space c) line = filter (\<lambda>c. \<not> is_space c) ?rest"
    by (induction line) simp_all
  have "filter (\<lambda>c. \<not> is_space c) ?rest = filter (\<lambda>c. \<not> is_space c) (?w @ ?more)" by simp
  also have "\<dots> = ?w @ filter (\<lambda>c. \<not> is_space c) ?more"
    by (simp only: filter_append) (auto simp: filter_id_conv dest: set_takeWhileD)
  finally show ?case using skip 1 by (auto simp: tokenize.simps [of line] Let_def)
qed

lemma tokenize_word_blank:
  assumes "is_word w"
  shows "tokenize (w @ CHR '' '' # rest) = w # tokenize rest" and "tokenize w = [w]"
proof -
  have skip: "dropWhile is_space (w @ r) = w @ r" for r
    using assms by (cases w) (auto simp: is_word_def)
  have cut: "takeWhile (\<lambda>c. \<not> is_space c) (w @ CHR '' '' # rest) = w"
    "dropWhile (\<lambda>c. \<not> is_space c) (w @ CHR '' '' # rest) = CHR '' '' # rest"
    "takeWhile (\<lambda>c. \<not> is_space c) w = w" "dropWhile (\<lambda>c. \<not> is_space c) w = []"
    using assms by (auto simp: is_word_def)
  have blank: "tokenize (CHR '' '' # rest) = tokenize rest"
    by (simp add: tokenize.simps [of "CHR '' '' # rest"] tokenize.simps [of rest])
  have ne: "w \<noteq> []" using assms by (simp add: is_word_def)
  show "tokenize (w @ CHR '' '' # rest) = w # tokenize rest"
    by (subst tokenize.simps) (simp add: skip cut blank ne Let_def)
  have "tokenize [] = []" by (simp add: tokenize.simps)
  then show "tokenize w = [w]"
    using skip [of "[]"] ne by (subst tokenize.simps) (simp add: cut Let_def)
qed

fun unwords :: "string list \<Rightarrow> string" where
  "unwords [] = []"
| "unwords [w] = w"
| "unwords (w # ws) = w @ '' '' @ unwords ws"

lemma candidate_loop_False:
  "candidate_loop as False acc = acc @ concat (map ((#) (CHR '' '')) as)"
  by (induction as arbitrary: acc) simp_all

lemma unwords_Cons: "unwords (a # as) = a @ concat (map ((#) (CHR '' '')) as)"
  by (induction as arbitrary: a) simp_all

lemma candidate_eq: "candidate args i = unwords (take (Suc i) args)"
  by (cases args) (simp_all add: candidate_def candidate_loop_False unwords_Cons)

lemma tokenize_unwords: "list_all is_word ws \<Longrightarrow> tokenize (unwords ws) = ws"
  by (induction ws rule: unwords.induct) (simp_all add: tokenize_word_blank, simp add: tokenize.simps)


lemma match_loop_longest:
  assumes "i \<le> length args"
  shows "match_loop args i found =
    (case filter (\<lambda>k. unwords (take (Suc k) args) \<in> set commands) [i..<length args] of
       [] \<Rightarrow> found
     | ks \<Rightarrow> (unwords (take (Suc (last ks)) args), drop (Suc (last ks)) args))"
  using assms
proof (induction args i found rule: match_loop.induct)
  case (1 args i found)
  show ?case
  proof (cases "i < length args")
    case True
    then have "[i..<length args] = i # [Suc i..<length args]" by (simp add: upt_conv_Cons)
    with True "1.IH" [OF True] show ?thesis
      by (simp add: match_loop.simps [of args i] candidate_eq split: list.split)
  next
    case False
    with "1.prems" show ?thesis by (simp add: match_loop.simps)
  qed
qed

text \<open>No command has more than two words, so the first two decide.\<close>

definition blanks :: "string \<Rightarrow> nat" where
  "blanks s = length (filter (\<lambda>c. c = CHR '' '') s)"

lemma blanks_commands: "c \<in> set commands \<Longrightarrow> blanks c \<le> 1"
  by (auto simp: commands_def blanks_def)

lemma blanks_unwords: "length ws \<le> Suc (blanks (unwords ws))"
  by (induction ws rule: unwords.induct) (simp_all add: blanks_def)

lemma find_command_two:
  "find_command (a # b # rest) =
     (if a @ '' '' @ b \<in> set commands then (a @ '' '' @ b, rest)
      else if a \<in> set commands then (a, b # rest) else ([], []))"
proof -
  let ?args = "a # b # rest"
  have "unwords (take (Suc k) ?args) \<notin> set commands" if "2 \<le> k" "k < length ?args" for k
    using blanks_unwords [of "take (Suc k) ?args"] blanks_commands [of "unwords (take (Suc k) ?args)"] that
    by auto
  then have "filter (\<lambda>k. unwords (take (Suc k) ?args) \<in> set commands) [2..<length ?args] = []"
    unfolding filter_empty_conv set_upt Ball_def atLeastLessThan_iff by blast
  moreover have "[0..<length ?args] = 0 # 1 # [2..<length ?args]"
    by (simp add: upt_conv_Cons [of 0] upt_conv_Cons [of "Suc 0"] numeral_2_eq_2 del: upt_Suc)
  ultimately show ?thesis
    unfolding find_command_def match_loop_longest [OF le0] by (simp add: unwords_Cons)
qed

lemma cmd_faults:
  "cmd_add X args cl \<noteq> Inl (Out_of_range m)" "cmd_send_msg X args cl \<noteq> Inl (Out_of_range m)"
  "cmd_join X args cl \<noteq> Inl (Out_of_range m)"
  by (auto simp: cmd_add_def cmd_send_msg_def cmd_join_def Let_def
      split: sum.split prod.split Number.split)

lemma run_command_known:
  assumes "cmd \<in> set commands"
  shows "run_command X cmd args cl \<noteq> Inl (Out_of_range ''unordered_map::at'')"
proof -
  have "run_command X cmd args cl = Inl (Out_of_range ''unordered_map::at'') \<Longrightarrow> cmd \<notin> set commands"
    unfolding run_command_def commands_def by (simp add: cmd_faults split: if_splits)
  with assms show ?thesis by blast
qed

text \<open>
  C31. The command of a line is the longest sequence of its first words that is the name of
  a registered command, and the words behind it are its arguments; if no such sequence
  exists the line is reported as unknown. A command that was found can always be looked
  up, so every line but the two that leave the program is answered.
\<close>

theorem find_command_longest:
  "find_command args =
     (case filter (\<lambda>k. unwords (take k args) \<in> set commands) [1..<Suc (length args)] of
        [] \<Rightarrow> ([], [])
      | ks \<Rightarrow> (unwords (take (last ks) args), drop (last ks) args))
   \<and> (fst (find_command args) = [] \<or> (\<forall>X cl. run_command X (fst (find_command args)) (snd (find_command args)) cl
          \<noteq> Inl (Out_of_range ''unordered_map::at'')))"
proof
  have shift: "[1..<Suc n] = map Suc [0..<n]" for n
    by (simp add: map_Suc_upt)
  show eq: "find_command args =
     (case filter (\<lambda>k. unwords (take k args) \<in> set commands) [1..<Suc (length args)] of
        [] \<Rightarrow> ([], [])
      | ks \<Rightarrow> (unwords (take (last ks) args), drop (last ks) args))"
    unfolding find_command_def match_loop_longest [OF le0] shift filter_map comp_def
    by (simp add: last_map split: list.split)
  let ?ks = "filter (\<lambda>k. unwords (take k args) \<in> set commands) [1..<Suc (length args)]"
  have "unwords (take (last ?ks) args) \<in> set commands" if "?ks \<noteq> []"
    using last_in_set [OF that] unfolding set_filter by blast
  then show "fst (find_command args) = [] \<or> (\<forall>X cl. run_command X (fst (find_command args))
      (snd (find_command args)) cl \<noteq> Inl (Out_of_range ''unordered_map::at''))"
    unfolding eq by (auto dest: run_command_known split: list.splits simp del: upt_Suc)
qed

text \<open>No command touches the members that hold the connection.\<close>

definition connection :: "client \<Rightarrow> u64 \<times> ptr_state \<times> ptr_state \<times> fd_call list" where
  "connection cl = (m_Sock cl, cl_ctx cl, cl_ssl cl, fd_calls cl)"

lemma connection_simps [simp]:
  "connection (notice t cl) = connection cl"
  "connection (cl\<lparr>m_pingStart := x\<rparr>) = connection cl"
  "connection (cl\<lparr>wire := w\<rparr>) = connection cl"
  "connection (sendSSLPacketToServer X p cl) = connection cl"
  by (simp_all add: connection_def sendSSLPacketToServer_def notice_def Let_def)

lemmas send_defs = sendEchoRequest_def sendAdditionRequest_def sendBroadcast_def sendPing_def sendUptime_def
  sendIncrementCounter_def sendGetCounter_def sendGetClients_def sendClientMessage_def
  sendGetChatRooms_def sendGetRoomInfo_def sendJoinRoomRequest_def sendChatSay_def sendSSLOpcodeToServer_def

lemma command_connection:
  "cmd_add X args cl = Inr c \<Longrightarrow> connection c = connection cl"
  "cmd_send_msg X args cl = Inr c \<Longrightarrow> connection c = connection cl"
  "cmd_join X args cl = Inr c \<Longrightarrow> connection c = connection cl"
  by (auto simp: cmd_add_def cmd_send_msg_def cmd_join_def number_arg_def send_defs Let_def
      split: if_splits sum.splits Number.splits)

lemma run_command_connection: "run_command X cmd args cl = Inr c \<Longrightarrow> connection c = connection cl"
  unfolding run_command_def
  by (auto simp: send_defs dest: command_connection split: if_splits)

lemma run_line_connection: "run_line X line cl = Some c \<Longrightarrow> connection c = connection cl"
  by (auto simp: run_line_def Let_def dest: run_command_connection split: if_splits prod.splits sum.splits)

lemma run_loop_connection: "connection (run_loop X r inp cl) = connection cl"
proof (induction X r inp cl rule: run_loop.induct)
  case (3 X running line inp cl)
  then show ?case
    by (cases "run_line X line cl") (auto dest: run_line_connection)
qed simp_all


section \<open>Commands and replies\<close>

text \<open>What a line sends does not depend on the state of the client.\<close>

lemma run_command_wire:
  "map_sum id wire (run_command X cmd args cl) =
     map_sum id ((@) (wire cl) \<circ> wire) (run_command X cmd args Client_new)"
proof -
  have new: "wire Client_new = []" by (simp add: Client_new_def)
  have add: "map_sum id wire (cmd_add X args cl) = map_sum id ((@) (wire cl) \<circ> wire) (cmd_add X args Client_new)"
    by (simp add: cmd_add_def send_defs new Let_def split: sum.split)
  have msg: "map_sum id wire (cmd_send_msg X args cl) = map_sum id ((@) (wire cl) \<circ> wire) (cmd_send_msg X args Client_new)"
    by (simp add: cmd_send_msg_def number_arg_def send_defs new Let_def split: sum.split)
  have join: "map_sum id wire (cmd_join X args cl) = map_sum id ((@) (wire cl) \<circ> wire) (cmd_join X args Client_new)"
    by (simp add: cmd_join_def number_arg_def send_defs new Let_def split: sum.split Number.split)
  show ?thesis
    unfolding run_command_def by (simp add: add msg join send_defs new)
qed

lemma run_line_wire:
  assumes "wire cl = wire d"
  shows "map_option wire (run_line X line cl) = map_option wire (run_line X line d)"
proof -
  obtain cmd args where fc: "find_command (tokenize line) = (cmd, args)" by fastforce
  have "map_sum id wire (run_command X cmd args cl) = map_sum id wire (run_command X cmd args d)"
    using run_command_wire [of X cmd args cl] run_command_wire [of X cmd args d] assms by simp
  then show ?thesis
    using assms
    by (cases "run_command X cmd args cl"; cases "run_command X cmd args d")
      (simp_all add: run_line_def fc Let_def)
qed

lemma run_loop_wire:
  assumes "wire cl = wire d"
  shows "wire (run_loop X r inp cl) = wire (run_loop X r inp d)"
  using assms
proof (induction X r inp cl arbitrary: d rule: run_loop.induct)
  case (3 X running line inp cl)
  note w = run_line_wire [OF "3.prems", of X line]
  show ?case
  proof (cases "run_line X line cl")
    case None
    with w "3.prems" show ?thesis by simp
  next
    case (Some c)
    with w obtain c' where d: "run_line X line d = Some c'" and cc: "wire c = wire c'"
      by (cases "run_line X line d") auto
    have "wire (run_loop X True inp c) = wire (run_loop X True inp c')" if running
      by (rule "3.IH" [OF Some that cc])
    with Some d cc show ?thesis by simp
  qed
qed simp_all

fun typed :: "client_event list \<Rightarrow> cli_input list" where
  "typed [] = []"
| "typed (Typed i # evs) = i # typed evs"
| "typed (Poll R # evs) = typed evs"

lemma prints_wire: "prints cl cl' \<Longrightarrow> wire cl' = wire cl \<and> connection cl' = connection cl"
  by (auto simp: prints_def connection_def)

lemma poll_prints: "processReplyFromServerIfAny X R cl = Inr (Continue cl') \<Longrightarrow> prints cl cl'"
  by (auto simp: processReplyFromServerIfAny_def Let_def split: if_splits sum.splits)

text \<open>
  C35. Replies and commands do not disturb each other. However the polls of the reply thread
  fall between the commands, and whatever they receive, the packets that the client has
  sent when the user leaves are exactly those of the typed lines alone, in their order,
  and the connection is the one it had.
\<close>

theorem commands_and_replies:
  assumes "run_threads X running evs cl = Inr (Left_loop cl')"
  shows "wire cl' = wire (run_loop X running (typed evs) cl) \<and> connection cl' = connection cl"
  using assms
proof (induction X running evs cl rule: run_threads.induct)
  case (2 X running R evs cl)
  show ?case
  proof (cases running)
    case False
    with 2 show ?thesis by simp
  next
    case True
    with 2(3) obtain cl1 where p: "processReplyFromServerIfAny X R cl = Inr (Continue cl1)"
      and run: "run_threads X True evs cl1 = Inr (Left_loop cl')"
      by (auto split: sum.splits reply_result.splits)
    note same = prints_wire [OF poll_prints [OF p]]
    from 2(1) [OF True p refl run] show ?thesis
      using True same run_loop_wire [of cl1 cl X True "typed evs"] by simp
  qed
next
  case (4 X running line evs cl)
  then show ?case
    by (cases "run_line X line cl") (auto dest: run_line_connection split: if_splits)
qed simp_all

definition sample_client :: client_env where
  "sample_client = \<lparr>c_host = Little_endian, c_fpe = sse_fp_env, SHA256 = (\<lambda>bs. replicate 32 0),
     c_now = (\<lambda>cl. 0), c_write_ret = (\<lambda>cl p. int (length p))\<rparr>"

theorem commands_and_replies_witness:
  "\<exists>cl'. run_threads sample_client True
     [Typed (Line ''ping''),
      Poll \<lparr>r_poll = 1, r_eintr = False, r_nval = False, r_err = False, r_in_hup = True,
        r_read = Inl (packet_header Little_endian SMSG_PONG)\<rparr>,
      Typed (Line ''quit'')] Client_new =
     Inr (Left_loop cl') \<and> console cl' = [Ping_line 0]
     \<and> wire cl' = [packet_header Little_endian CMSG_PING]"
proof -
  let ?R = "\<lparr>r_poll = 1, r_eintr = False, r_nval = False, r_err = False, r_in_hup = True,
    r_read = Inl (packet_header Little_endian SMSG_PONG)\<rparr>"
  let ?evs = "[Typed (Line ''ping''), Poll ?R, Typed (Line ''quit'')]"
  have quit: "run_line sample_client ''quit'' cl = None" for cl
    by (simp add: run_line_def tokenize.simps is_space_def of_char_def Let_def)
  have "tokenize ''ping'' = [''ping'']" by (simp add: tokenize.simps is_space_def of_char_def)
  moreover have "find_command [''ping''] = (''ping'', [])"
    by (simp add: find_command_def match_loop.simps candidate_def commands_def)
  ultimately have ping: "run_line sample_client ''ping'' cl = Some (sendPing sample_client cl)" for cl
    by (simp add: run_line_def run_command_def)
  obtain cl' where run: "run_threads sample_client True ?evs Client_new = Inr (Left_loop cl')"
    "console cl' = [Ping_line 0]"
    by (simp add: quit ping processReplyFromServerIfAny_def decode_reply_def Let_def)
      (simp add: sample_client_def send_defs sendSSLPacketToServer_def Client_new_def c_div_def Let_def)
  from commands_and_replies [OF run(1)] have "wire cl' = wire (sendPing sample_client Client_new)"
    by (simp add: quit ping)
  then have "wire cl' = [packet_header Little_endian CMSG_PING]"
    by (simp add: send_defs sample_client_def Client_new_def)
  with run show ?thesis by blast
qed

end
