(* ===== verification/Chat_Service.thy ===== *)
theory Chat_Service
  imports Server_Runs Server_Sends Client_CLI
begin

text \<open>
  What the server promises its users, without packets, buffers, descriptors and TLS: an
  abstract chat service over client numbers, and the proof that the request handlers
  implement it, one request at a time and for every sequence of requests. On the other
  side, every reply of the service is displayed by the client program as what it means.
\<close>

section \<open>The service\<close>

datatype request =
    Rq_echo bytes | Rq_broadcast bytes | Rq_ping | Rq_increment | Rq_get_counter
  | Rq_info | Rq_join u8 bytes | Rq_say bytes

datatype reply =
    Rp_echo bytes | Rp_broadcast bytes | Rp_pong | Rp_counter u64 | Rp_message bytes
  | Rp_joined u8 | Rp_join_refused eChatErr | Rp_said | Rp_say_refused eChatErr | Rp_line bytes

text \<open>The members with the room each is in, in order of arrival; the rooms; the counter.\<close>

record service =
  members :: "(u64 \<times> u8 option) list"
  roomtab :: chat
  tally :: u64

definition room_of :: "u64 \<Rightarrow> service \<Rightarrow> u8 option" where
  "room_of me S = (case map_of (members S) me of None \<Rightarrow> None | Some r \<Rightarrow> r)"

definition enter :: "u64 \<Rightarrow> u8 \<Rightarrow> (u64 \<times> u8 option) list \<Rightarrow> (u64 \<times> u8 option) list" where
  "enter me r ms = map (\<lambda>(k, v). (k, if k = me then Some r else v)) ms"

fun service_step :: "u64 \<Rightarrow> request \<Rightarrow> service \<Rightarrow> service \<times> (u64 \<times> reply) list" where
  "service_step me (Rq_echo m) S = (S, [(me, Rp_echo m)])"
| "service_step me (Rq_broadcast m) S = (S, map (\<lambda>(k, v). (k, Rp_broadcast m)) (members S))"
| "service_step me Rq_ping S = (S, [(me, Rp_pong)])"
| "service_step me Rq_increment S = (S\<lparr>tally := tally S + 1\<rparr>, [])"
| "service_step me Rq_get_counter S = (S, [(me, Rp_counter (tally S))])"
| "service_step me Rq_info S =
     (S, [(me, Rp_message
        (case room_of me S of
           None \<Rightarrow> ascii ''No joined room''
         | Some r \<Rightarrow> ascii ''Joined: '' @ (case roomtab S r of None \<Rightarrow> [] | Some room \<Rightarrow> c_str (name room))))])"
| "service_step me (Rq_join r digest) S =
     (case roomtab S r of
        None \<Rightarrow> (S\<lparr>roomtab := (roomtab S)(r \<mapsto> ChatRoom_default)\<rparr>, [(me, Rp_join_refused ERR_INVALID_ROOM)])
      | Some room \<Rightarrow>
          (if passwordHash room = [] \<or> passwordHash room = digest
           then (S\<lparr>members := enter me r (members S)\<rparr>, [(me, Rp_joined r)])
           else (S, [(me, Rp_join_refused ERR_INVALID_ROOM_PASSWORD)])))"
| "service_step me (Rq_say m) S =
     (case room_of me S of
        None \<Rightarrow> (S, [(me, Rp_say_refused ERR_NO_ROOM_JOINED)])
      | Some r \<Rightarrow> (S, (me, Rp_said) #
          map (\<lambda>(k, v). (k, Rp_line m)) (filter (\<lambda>(k, v). v = Some r) (members S))))"

text \<open>How requests and replies travel.\<close>

fun request_packet :: "endian \<Rightarrow> request \<Rightarrow> bytes" where
  "request_packet e (Rq_echo m) = packet_header e CMSG_ECHO_REQUEST @ m"
| "request_packet e (Rq_broadcast m) = packet_header e CMSG_BROADCAST_MESSAGE @ m"
| "request_packet e Rq_ping = packet_header e CMSG_PING"
| "request_packet e Rq_increment = packet_header e CMSG_INCREMENT_COUNTER"
| "request_packet e Rq_get_counter = packet_header e CMSG_GET_COUNTER"
| "request_packet e Rq_info = packet_header e CMSG_GET_ROOM_INFO"
| "request_packet e (Rq_join r digest) = packet_header e CMSG_JOIN_ROOM @ r # digest"
| "request_packet e (Rq_say m) = packet_header e CMSG_SAY @ m"

fun reply_packet :: "endian \<Rightarrow> reply \<Rightarrow> bytes" where
  "reply_packet e (Rp_echo m) = packet_header e SMSG_ECHO_REQUEST @ m"
| "reply_packet e (Rp_broadcast m) = packet_header e SMSG_BROADCAST @ m"
| "reply_packet e Rp_pong = packet_header e SMSG_PONG"
| "reply_packet e (Rp_counter n) = packet_header e SMSG_COUNTER @ mem_bytes e n"
| "reply_packet e (Rp_message m) = packet_header e SMSG_MESSAGE @ m"
| "reply_packet e (Rp_joined r) = packet_header e SMSG_JOIN_CHAT_ROOM_OK @ [r]"
| "reply_packet e (Rp_join_refused err) = packet_header e SMSG_JOIN_CHAT_ROOM_ERR @ [err_code err]"
| "reply_packet e Rp_said = packet_header e SMSG_SAY_OK"
| "reply_packet e (Rp_say_refused err) = packet_header e SMSG_SAY_ERR @ [err_code err]"
| "reply_packet e (Rp_line m) = packet_header e SMSG_SAY @ m"

section \<open>The abstraction\<close>

definition member_of :: "ClientSocket \<Rightarrow> u64 \<times> u8 option" where
  "member_of c = (clientID c, if chatRoomJoined c then Some (joinedChatRoomID c) else None)"

definition service_of :: "server \<Rightarrow> service" where
  "service_of s = \<lparr>members = map member_of (m_ClientSocket s), roomtab = rooms s, tally = m_Counter s\<rparr>"

definition addr :: "server \<Rightarrow> u64 \<Rightarrow> ssl_ptr option" where
  "addr s k = (case List.find (\<lambda>c. clientID c = k) (m_ClientSocket s) of None \<Rightarrow> None | Some c \<Rightarrow> ssl c)"

text \<open>Rooms are open or carry a full digest; a request to join carries a full one.\<close>

definition digests_ok :: "chat \<Rightarrow> bool" where
  "digests_ok m \<longleftrightarrow> (\<forall>room \<in> ran m. passwordHash room = [] \<or> length (passwordHash room) = 32)"

fun request_ok :: "request \<Rightarrow> bool" where
  "request_ok (Rq_join r digest) = (length digest = 32)"
| "request_ok rq = True"

lemma addr_client: "server_inv s \<Longrightarrow> c \<in> set (m_ClientSocket s) \<Longrightarrow> addr s (clientID c) = ssl c"
  using find_distinct [OF server_inv_distinct] by (simp add: addr_def)

lemma room_of_client:
  assumes "server_inv s" and "c \<in> set (m_ClientSocket s)"
  shows "room_of (clientID c) (service_of s) = (if chatRoomJoined c then Some (joinedChatRoomID c) else None)"
proof -
  have "fst \<circ> member_of = clientID" by (rule ext) (simp add: member_of_def)
  with server_inv_distinct [OF assms(1)] have "distinct (map fst (map member_of (m_ClientSocket s)))" by simp
  moreover have "member_of c \<in> set (map member_of (m_ClientSocket s))" using assms(2) by simp
  ultimately have "map_of (members (service_of s)) (clientID c) = Some (snd (member_of c))"
    by (simp add: service_of_def member_of_def)
  then show ?thesis by (simp add: room_of_def member_of_def)
qed

lemma service_of_only_sends: "only_sends s t \<Longrightarrow> service_of t = service_of s"
  by (simp add: service_of_def only_sends_fields)

section \<open>One request\<close>

definition refines :: "env \<Rightarrow> nat \<Rightarrow> request \<Rightarrow> server \<Rightarrow> server \<Rightarrow> bool" where
  "refines E i rq s t \<longleftrightarrow>
     (let (S, out) = service_step (clientID (m_ClientSocket s ! i)) rq (service_of s)
      in service_of t = S
         \<and> sent (hist t) = sent (hist s) @ map (\<lambda>(k, rp). (addr s k, reply_packet (host E) rp)) out)"

lemma refines_sends:
  assumes "only_sends s t"
    and "service_step (clientID (m_ClientSocket s ! i)) rq (service_of s) = (service_of s, out)"
    and "sent (hist t) = sent (hist s) @ map (\<lambda>(k, rp). (addr s k, reply_packet (host E) rp)) out"
  shows "refines E i rq s t"
  using assms by (simp add: refines_def service_of_only_sends)

lemma map_members_in_room:
  "map (\<lambda>(k, v). f k) (filter (\<lambda>(k, v). v = Some r) (members (service_of s))) =
     map (\<lambda>c. f (clientID c))
       (filter (\<lambda>c. joinedChatRoomID c = r \<and> chatRoomJoined c) (m_ClientSocket s))"
proof -
  have "map (\<lambda>(k, v). f k) (filter (\<lambda>(k, v). v = Some r) (map member_of cs)) =
      map (\<lambda>c. f (clientID c)) (filter (\<lambda>c. joinedChatRoomID c = r \<and> chatRoomJoined c) cs)" for cs
    by (induction cs) (auto simp: member_of_def)
  then show ?thesis by (simp add: service_of_def)
qed

lemma members_in_room_addr:
  assumes "server_inv s"
  shows "map (\<lambda>x. (addr s (fst x), p)) (filter (\<lambda>x. snd x = Some r) (members (service_of s))) =
    map (\<lambda>c. (ssl c, p)) (filter (\<lambda>c. joinedChatRoomID c = r \<and> chatRoomJoined c) (m_ClientSocket s))"
  using map_members_in_room [of "\<lambda>k. (addr s k, p)" r s] addr_client [OF assms]
  by (simp add: split_def)

lemma enter_client:
  assumes "server_inv s" and "i < length (m_ClientSocket s)"
  shows "enter (clientID (m_ClientSocket s ! i)) r (map member_of (m_ClientSocket s)) =
    map member_of ((m_ClientSocket s)[i := (m_ClientSocket s ! i)\<lparr>joinedChatRoomID := r, chatRoomJoined := True\<rparr>])"
proof (rule nth_equalityI)
  fix j
  assume "j < length (enter (clientID (m_ClientSocket s ! i)) r (map member_of (m_ClientSocket s)))"
  then have j: "j < length (m_ClientSocket s)" by (simp add: enter_def)
  have "clientID (m_ClientSocket s ! j) = clientID (m_ClientSocket s ! i) \<longleftrightarrow> j = i"
    using nth_eq_iff_index_eq [OF server_inv_distinct [OF assms(1)]] j assms(2) by simp
  with j assms(2) show "enter (clientID (m_ClientSocket s ! i)) r (map member_of (m_ClientSocket s)) ! j =
      map member_of ((m_ClientSocket s)[i := (m_ClientSocket s ! i)\<lparr>joinedChatRoomID := r, chatRoomJoined := True\<rparr>]) ! j"
    by (auto simp: enter_def member_of_def nth_list_update)
qed (simp add: enter_def)

lemma join_check_ok:
  assumes "digests_ok m" and "length digest = 32"
  shows "join_check r digest m =
    (case m r of
       None \<Rightarrow> Inr (ERR_INVALID_ROOM, m(r \<mapsto> ChatRoom_default))
     | Some room \<Rightarrow> Inr (if passwordHash room = [] \<or> passwordHash room = digest then ERR_OK
                        else ERR_INVALID_ROOM_PASSWORD, m))"
proof (cases "m r")
  case None
  then show ?thesis by (simp add: join_check_def checkRoomID_def isRoomProtected_unknown)
next
  case (Some room)
  with assms(1) have "passwordHash room = [] \<or> length (passwordHash room) = 32"
    by (auto simp: digests_ok_def ran_def)
  with Some assms(2) show ?thesis
    by (auto simp: join_check_def checkRoomID_def isRoomProtected_known checkPasswordHash_def
        subscript_known read_at_def SHA256_DIGEST_LENGTH_def)
qed

lemma join_refines:
  assumes inv: "server_inv s" and i: "i < length (m_ClientSocket s)"
    and dig: "digests_ok (rooms s)" "length digest = 32"
    and jc: "join_check r digest (rooms s) = Inr (err, m)"
  shows "refines E i (Rq_join r digest) s (join_reply E i r err (s\<lparr>rooms := m\<rparr>))"
proof -
  let ?c = "m_ClientSocket s ! i"
  have me: "addr s (clientID ?c) = ssl ?c" using inv i by (simp add: addr_client)
  show ?thesis
  proof (cases "rooms s r")
    case None
    with jc join_check_ok [OF dig, of r] show ?thesis
      by (auto simp: refines_def service_of_def join_reply_def me)
  next
    case (Some room)
    with jc join_check_ok [OF dig, of r] show ?thesis
      by (auto simp: refines_def service_of_def join_reply_def me Let_def enter_client [OF inv i]
          split: if_splits)
  qed
qed

lemma info_refines:
  assumes inv: "server_inv s" and i: "i < length (m_ClientSocket s)"
  shows "\<exists>t. CallHandlerGetRoominfo E i s = Inr t \<and> refines E i Rq_info s t"
proof -
  let ?c = "m_ClientSocket s ! i"
  have c: "?c \<in> set (m_ClientSocket s)" using i by simp
  have me: "addr s (clientID ?c) = ssl ?c" by (rule addr_client [OF inv c])
  have lit: "c_str (ascii ''No joined room'') = ascii ''No joined room''"
    "c_str (ascii ''Joined: '' @ nm) = ascii ''Joined: '' @ c_str nm" for nm
    by (simp_all add: ascii_def c_str_def of_char_def)
  have tab: "roomtab (service_of s) = rooms s" by (simp add: service_of_def)
  have "client_ok (rooms s) ?c" using inv c by (rule server_inv_client)
  then consider "\<not> chatRoomJoined ?c" | room where "chatRoomJoined ?c" "rooms s (joinedChatRoomID ?c) = Some room"
    by (auto simp: client_ok_def checkRoomID_def)
  then show ?thesis
  proof cases
    case 1
    with room_of_client [OF inv c] show ?thesis
      by (simp add: CallHandlerGetRoominfo_def refines_def service_of_only_sends [OF only_sends_msg] lit me)
  next
    case 2
    with room_of_client [OF inv c] show ?thesis
      by (simp add: CallHandlerGetRoominfo_def checkRoomID_def getRoomName_def refines_def tab
          service_of_only_sends [OF only_sends_msg] lit me)
  qed
qed

text \<open>Which handler a request reaches.\<close>

lemma dispatch_bare:
  assumes "received s (request_packet e rq)"
  shows "rq = Rq_ping \<Longrightarrow> CallHandler E i (length (request_packet e rq)) s = Inr (CallHandlerPong E i s)"
    and "rq = Rq_increment \<Longrightarrow> CallHandler E i (length (request_packet e rq)) s =
      Inr (s\<lparr>m_Counter := incrementCounter (m_Counter s)\<rparr>)"
    and "rq = Rq_get_counter \<Longrightarrow> CallHandler E i (length (request_packet e rq)) s =
      Inr (CallHandlerGetCounter E i s)"
    and "rq = Rq_info \<Longrightarrow> CallHandler E i (length (request_packet e rq)) s = CallHandlerGetRoominfo E i s"
  using assms by (simp_all add: CallHandler_def received_opcode [of s e _ "[]", simplified])

lemma dispatch_text:
  assumes "received s (request_packet e rq)"
  shows "rq = Rq_echo m \<Longrightarrow> CallHandler E i (length (request_packet e rq)) s = Inr (CallHandlerEcho E i m s)"
    and "rq = Rq_broadcast m \<Longrightarrow> CallHandler E i (length (request_packet e rq)) s =
      Inr (CallHandlerBroadcast E m s)"
    and "rq = Rq_say m \<Longrightarrow> CallHandler E i (length (request_packet e rq)) s = Inr (CallHandlerSay E i m s)"
  using assms by (simp_all add: CallHandler_def received_opcode [of s e] received_payload [of s e])

lemma broadcast_refines:
  assumes "server_inv s"
  shows "refines E i (Rq_broadcast m) s (CallHandlerBroadcast E m s)"
  using broadcast_sends [OF assms, of E m]
  by (auto simp: comp_def split_def service_of_def member_of_def addr_client [OF assms] intro!: refines_sends)

lemma say_refines:
  assumes "server_inv s" and "i < length (m_ClientSocket s)"
  shows "refines E i (Rq_say m) s (CallHandlerSay E i m s)"
proof -
  let ?c = "m_ClientSocket s ! i"
  have c: "?c \<in> set (m_ClientSocket s)" using assms(2) by simp
  note facts = say_sends [OF assms, of E m] room_of_client [OF assms(1) c]
  show ?thesis
  proof (cases "chatRoomJoined ?c")
    case True
    with facts show ?thesis
      by (auto simp: Let_def addr_client [OF assms(1) c] comp_def split_def members_in_room_addr [OF assms(1)]
          intro!: refines_sends)
  next
    case False
    with facts show ?thesis
      by (auto simp: Let_def addr_client [OF assms(1) c] intro!: refines_sends)
  qed
qed

lemma handler_refines:
  assumes inv: "server_inv s" and i: "i < length (m_ClientSocket s)"
    and dig: "digests_ok (rooms s)" and ok: "request_ok rq"
    and rcv: "received s (request_packet e rq)"
  shows "\<exists>t. CallHandler E i (length (request_packet e rq)) s = Inr t \<and> refines E i rq s t"
proof -
  have me: "addr s (clientID (m_ClientSocket s ! i)) = ssl (m_ClientSocket s ! i)"
    by (rule addr_client [OF inv]) (use i in simp)
  note bare = dispatch_bare [OF rcv] and full = dispatch_text [OF rcv]
  show ?thesis
  proof (cases rq)
    case (Rq_echo m)
    then show ?thesis
      unfolding full(1) [OF Rq_echo] by (auto simp: me CallHandlerEcho_def intro!: refines_sends)
  next
    case (Rq_broadcast m)
    with broadcast_refines [OF inv] show ?thesis unfolding full(2) [OF Rq_broadcast] by blast
  next
    case Rq_ping
    then show ?thesis
      unfolding bare(1) [OF Rq_ping] by (auto simp: me CallHandlerPong_def intro!: refines_sends)
  next
    case Rq_increment
    then show ?thesis
      unfolding bare(2) [OF Rq_increment] by (auto simp: refines_def service_of_def incrementCounter_def)
  next
    case Rq_get_counter
    then show ?thesis
      unfolding bare(3) [OF Rq_get_counter]
      by (auto simp: me CallHandlerGetCounter_def getCounter_def service_of_def intro!: refines_sends)
  next
    case Rq_info
    with info_refines [OF inv i] show ?thesis unfolding bare(4) [OF Rq_info] by simp
  next
    case (Rq_join r digest)
    with ok dig obtain err m where jc: "join_check r digest (rooms s) = Inr (err, m)"
      using join_check_ok [OF dig, of digest r] by (auto split: option.splits)
    from Rq_join ok have len: "length digest = 32" by simp
    from join_call [of s e r digest E i] rcv Rq_join jc len
    have "CallHandler E i (length (request_packet e rq)) s = Inr (join_reply E i r err (s\<lparr>rooms := m\<rparr>))"
      by simp
    with join_refines [OF inv i dig len jc] Rq_join show ?thesis by blast
  next
    case (Rq_say m)
    with say_refines [OF inv i] show ?thesis unfolding full(3) [OF Rq_say] by blast
  qed
qed

section \<open>Sequences of requests\<close>

text \<open>A packet read from client \<open>i\<close> and served, as the request loop does it.\<close>

definition deliver :: "nat \<Rightarrow> bytes \<Rightarrow> server \<Rightarrow> server" where
  "deliver i pkt s = s\<lparr>buffer := pkt @ drop (length pkt) (buffer s),
     hist := hist s @ [Ev_SSL_read (ssl (m_ClientSocket s ! i)) pkt]\<rparr>"

fun serve_all :: "env \<Rightarrow> (nat \<times> bytes) list \<Rightarrow> server \<Rightarrow> fault + server" where
  "serve_all E [] s = Inr s"
| "serve_all E ((i, pkt) # xs) s =
     (case serve E i pkt (deliver i pkt s) of Inl f \<Rightarrow> Inl f | Inr t \<Rightarrow> serve_all E xs t)"

fun service_run :: "(u64 \<times> request) list \<Rightarrow> service \<Rightarrow> service \<times> (u64 \<times> reply) list" where
  "service_run [] S = (S, [])"
| "service_run ((me, rq) # xs) S =
     (let (S1, out1) = service_step me rq S; (S2, out2) = service_run xs S1 in (S2, out1 @ out2))"

lemma SSL_read_call_deliver:
  assumes "SSL_read_ret E (hist s) (ssl (m_ClientSocket s ! i)) = Some pkt" and "length pkt \<le> BUFFER_SIZE"
  shows "SSL_read_call E (ssl (m_ClientSocket s ! i)) s = (pkt, deliver i pkt s)"
  using assms by (simp add: SSL_read_call_def deliver_def)

lemma addr_zip:
  "addr s k = (case map_of (zip (map clientID (m_ClientSocket s)) (map ssl (m_ClientSocket s))) k of
     None \<Rightarrow> None | Some p \<Rightarrow> p)"
proof -
  have "(case List.find (\<lambda>c. clientID c = k) cs of None \<Rightarrow> None | Some c \<Rightarrow> ssl c) =
      (case map_of (zip (map clientID cs) (map ssl cs)) k of None \<Rightarrow> None | Some p \<Rightarrow> p)"
    for cs :: "ClientSocket list"
    by (induction cs) auto
  then show ?thesis by (simp add: addr_def)
qed

lemma addr_frame: "handler_frame i s t \<Longrightarrow> addr t = addr s"
  by (rule ext) (simp only: addr_zip handler_frame_fields(11,12))

lemma join_digests: "digests_ok m \<Longrightarrow> digests_ok (m(r \<mapsto> ChatRoom_default))"
  by (auto simp: digests_ok_def ChatRoom_default_def ran_def)

lemma service_step_digests:
  assumes "digests_ok (roomtab S)"
  shows "digests_ok (roomtab (fst (service_step me rq S)))"
  using assms by (cases rq) (auto simp: join_digests split: option.splits)

lemma length_request_packet: "2 \<le> length (request_packet e rq)"
  by (cases rq) simp_all

lemma received_deliver: "received (deliver i pkt s) pkt"
  by (simp add: received_def deliver_def)

lemma serve_refines:
  assumes inv: "server_inv s" and i: "i < length (m_ClientSocket s)" and dig: "digests_ok (rooms s)"
    and ok: "request_ok rq" "length (request_packet e rq) \<le> BUFFER_SIZE"
  obtains t where "serve E i (request_packet e rq) (deliver i (request_packet e rq) s) = Inr t"
    "refines E i rq s t" "server_inv t" "map clientID (m_ClientSocket t) = map clientID (m_ClientSocket s)"
    "addr t = addr s" "digests_ok (rooms t)"
proof -
  let ?p = "request_packet e rq"
  let ?s = "deliver i ?p s"
  have inv': "server_inv ?s" unfolding deliver_def by (rule server_inv_received [OF inv ok(2)])
  have i': "i < length (m_ClientSocket ?s)" and dig': "digests_ok (rooms ?s)"
    using i dig by (simp_all add: deliver_def)
  from handler_refines [OF inv' i' dig' ok(1) received_deliver] obtain t where
    t: "CallHandler E i (length ?p) ?s = Inr t" and ref: "refines E i rq ?s t" by blast
  have same: "service_of ?s = service_of s" "addr ?s = addr s" "sent (hist ?s) = sent (hist s)"
    "m_ClientSocket ?s = m_ClientSocket s"
    by (simp_all add: deliver_def service_of_def addr_def fun_eq_iff)
  have "serve E i ?p ?s = Inr t" using t length_request_packet [of e rq] by (simp add: serve_def)
  moreover have "refines E i rq s t" using ref by (simp add: refines_def same)
  moreover have "server_inv t" by (rule CallHandler_inv [OF t inv' i'])
  moreover have "map clientID (m_ClientSocket t) = map clientID (m_ClientSocket s)"
    using handler_frame_fields(11) [OF CallHandler_frame [OF t]] by (simp add: same)
  moreover have "addr t = addr s" using addr_frame [OF CallHandler_frame [OF t]] same by simp
  moreover have "digests_ok (rooms t)"
  proof -
    have "rooms t = roomtab (service_of t)" by (simp add: service_of_def)
    also have "service_of t = fst (service_step (clientID (m_ClientSocket s ! i)) rq (service_of s))"
      using ref by (simp add: refines_def same split_def Let_def)
    finally show ?thesis using service_step_digests dig by (simp add: service_of_def)
  qed
  ultimately show thesis by (rule that)
qed

text \<open>
  C1. The server implements the abstract chat service. For every sequence of echo,
  broadcast, ping, counter, room-information, join and chat requests, from whatever
  connected clients and in whatever order, the server handles all of them; the members,
  rooms and counter it ends with are those of the service, and the packets it has written,
  in order and with their recipients, are exactly the replies of the service.
\<close>

theorem server_refines_service:
  assumes "server_inv s" and "digests_ok (rooms s)"
    and "\<forall>(i, rq) \<in> set rqs. i < length (m_ClientSocket s) \<and> request_ok rq
      \<and> length (request_packet e rq) \<le> BUFFER_SIZE"
  shows "\<exists>t. serve_all E (map (\<lambda>(i, rq). (i, request_packet e rq)) rqs) s = Inr t \<and> server_inv t
    \<and> (let (S, out) = service_run (map (\<lambda>(i, rq). (clientID (m_ClientSocket s ! i), rq)) rqs) (service_of s)
       in service_of t = S
          \<and> sent (hist t) = sent (hist s) @ map (\<lambda>(k, rp). (addr s k, reply_packet (host E) rp)) out)"
  using assms
proof (induction rqs arbitrary: s)
  case Nil
  then show ?case by simp
next
  case (Cons x rqs)
  obtain i rq where x: "x = (i, rq)" by (cases x)
  from Cons.prems have i: "i < length (m_ClientSocket s)" and ok: "request_ok rq"
    "length (request_packet e rq) \<le> BUFFER_SIZE" by (auto simp: x)
  from serve_refines [OF Cons.prems(1) i Cons.prems(2) ok, of E] obtain u where
    u: "serve E i (request_packet e rq) (deliver i (request_packet e rq) s) = Inr u"
    and ref: "refines E i rq s u" and inv: "server_inv u"
    and ids: "map clientID (m_ClientSocket u) = map clientID (m_ClientSocket s)"
    and addr: "addr u = addr s" and dig: "digests_ok (rooms u)" .
  have len: "length (m_ClientSocket u) = length (m_ClientSocket s)" using ids by (metis length_map)
  have id_at: "clientID (m_ClientSocket u ! j) = clientID (m_ClientSocket s ! j)"
    if "j < length (m_ClientSocket s)" for j
    using ids that len by (metis nth_map)
  have "\<forall>(i, rq) \<in> set rqs. i < length (m_ClientSocket u) \<and> request_ok rq
      \<and> length (request_packet e rq) \<le> BUFFER_SIZE"
    using Cons.prems(3) len by auto
  from Cons.IH [OF inv dig this] obtain t where
    t: "serve_all E (map (\<lambda>(i, rq). (i, request_packet e rq)) rqs) u = Inr t" "server_inv t"
    and run: "let (S, out) = service_run (map (\<lambda>(i, rq). (clientID (m_ClientSocket u ! i), rq)) rqs) (service_of u)
       in service_of t = S
          \<and> sent (hist t) = sent (hist u) @ map (\<lambda>(k, rp). (addr u k, reply_packet (host E) rp)) out"
    by blast
  have who: "map (\<lambda>(i, rq). (clientID (m_ClientSocket u ! i), rq)) rqs =
      map (\<lambda>(i, rq). (clientID (m_ClientSocket s ! i), rq)) rqs"
    using Cons.prems(3) by (auto simp: id_at)
  from run [unfolded who] ref t u show ?case
    by (auto simp: x refines_def addr split_def Let_def)
qed

theorem server_refines_service_witness:
  "\<exists>t. serve_all sample_env (map (\<lambda>(i, rq). (i, request_packet Big_endian rq))
        [(1, Rq_join 7 (replicate 32 0)), (0, Rq_say [72, 105]), (1, Rq_increment)]) (sample_server []) = Inr t
     \<and> m_Counter t = 42
     \<and> sent (hist t) =
         [(Some 2, packet_header Little_endian SMSG_JOIN_CHAT_ROOM_OK @ [7]),
          (Some 1, packet_header Little_endian SMSG_SAY_OK),
          (Some 1, packet_header Little_endian SMSG_SAY @ [72, 105]),
          (Some 2, packet_header Little_endian SMSG_SAY @ [72, 105])]"
proof -
  let ?s = "sample_server []"
  let ?rqs = "[(1, Rq_join 7 (replicate 32 0)), (0, Rq_say [72, 105]), (1, Rq_increment)]"
  have dig: "digests_ok (rooms ?s)" by (auto simp: digests_ok_def sample_server_def ran_def)
  have ok: "\<forall>(i, rq) \<in> set ?rqs. i < length (m_ClientSocket ?s) \<and> request_ok rq
      \<and> length (request_packet Big_endian rq) \<le> BUFFER_SIZE"
    by (simp add: BUFFER_SIZE_def)
  have "roomtab (service_of ?s) 7 = Some \<lparr>name = ascii ''lobby'', passwordHash = []\<rparr>" "tally (service_of ?s) = 41"
    "members (service_of ?s) = [(1, Some 7), (2, None)]"
    by (simp_all add: service_of_def sample_server_def member_of_def ClientSocket_new_def)
  moreover have "addr ?s 1 = Some 1" "addr ?s 2 = Some 2"
    by (simp_all add: addr_def ClientSocket_new_def)
  ultimately show ?thesis
    using server_refines_service [OF sample_server_inv [of "[]"] dig ok, of sample_env]
    by (auto simp: ClientSocket_new_def enter_def room_of_def sample_env_def service_of_def)
qed

section \<open>What the client shows\<close>

text \<open>What a reply is to its reader; the ping time is measured on arrival.\<close>

fun reply_view :: "client_env \<Rightarrow> client \<Rightarrow> reply \<Rightarrow> view" where
  "reply_view X cl (Rp_echo m) = Echo_line m"
| "reply_view X cl (Rp_broadcast m) = Broadcast_line m"
| "reply_view X cl Rp_pong = Ping_line (c_div (c_now X cl - m_pingStart cl) 1000)"
| "reply_view X cl (Rp_counter n) = Counter_line (show_nat (unat n))"
| "reply_view X cl (Rp_message m) = Message_line m"
| "reply_view X cl (Rp_joined r) = Room_joined (show_nat (unat r))"
| "reply_view X cl (Rp_join_refused err) = Room_refused (err_code err)
     (case err of ERR_INVALID_ROOM \<Rightarrow> ''Invalid room ID.''
      | ERR_INVALID_ROOM_PASSWORD \<Rightarrow> ''Invalid room password.''
      | ERR_INVALID_PACKET \<Rightarrow> ''Invalid join request.''
      | _ \<Rightarrow> ''Something went wrong.'')"
| "reply_view X cl Rp_said = Said"
| "reply_view X cl (Rp_say_refused err) = Say_refused (err_code err)
     (case err of ERR_INVALID_ROOM \<Rightarrow> ''Invalid room ID.''
      | ERR_NO_ROOM_JOINED \<Rightarrow> ''No room joined.''
      | _ \<Rightarrow> ''Something went wrong.'')"
| "reply_view X cl (Rp_line m) = Room_line m"

lemma decode_reply_packet:
  "decode_reply (X\<lparr>c_host := e\<rparr>) (reply_packet e rp) cl = Inr (reply_view (X\<lparr>c_host := e\<rparr>) cl rp)"
proof (cases rp)
  case (Rp_counter n)
  have "take 8 (mem_bytes e n @ [0]) = mem_bytes e n" by simp
  then show ?thesis
    by (simp add: Rp_counter decode_reply_def counter_view_def from_payload_eq mem64.dec_enc)
next
  case (Rp_join_refused err)
  then show ?thesis
    by (cases err) (simp_all add: decode_reply_def join_err_view_def from_payload_eq)
next
  case (Rp_say_refused err)
  then show ?thesis
    by (cases err) (simp_all add: decode_reply_def say_err_view_def from_payload_eq)
qed (simp_all add: decode_reply_def join_ok_view_def from_payload_eq)


end
