(* ===== verification/Spec2Isabelle.thy ===== *)
theory Spec2Isabelle
  imports Server_Options Server_Tls Chat_Service
begin

text \<open>
  Communo is a chat system of two C++ programs that talk over TLS: a single-threaded server
  (\<open>src/src/server\<close>), which polls its connections, and a command-line client
  (\<open>src/src/client\<close>); both use \<open>src/src/common\<close>. This library models both programs, from
  the line a user types to the answer on the screen, as executable definitions with the
  names of the source, and proves what they do.

  \<^bold>\<open>Parts and theories.\<close>

  \<^item> \<open>Communo_Prelude\<close>: words, byte order and memory images, bounded reads, the \<open>fault\<close> type
    (exceptions, out-of-bounds reads, uses of freed or uninitialised memory), the locales
    \<open>byte_codec\<close> (every fixed-width field of the protocol) and \<open>invariant_system\<close>.
  \<^item> \<open>Floating_Point\<close>, \<open>Number_Text\<close>: IEEE 754 addition, conversion and printing, and the
    library parsers \<open>from_chars\<close> and \<open>strtod\<close>, as far as the program uses them.
  \<^item> \<open>Number_Parser\<close>: \<open>common/NumParser\<close>, the \<open>Number\<close> variant, its text parser and its
    binary codec.
  \<^item> \<open>Wire_Protocol\<close>: \<open>common/OpCodes.h\<close>, \<open>common/SharedDefinitions.h\<close>.
  \<^item> \<open>Chat_Rooms\<close>: \<open>server/Chat\<close> and \<open>server/Database\<close>; the locale \<open>room_store\<close> is what the
    handlers rely on.
  \<^item> \<open>Client_Sockets\<close>: \<open>ClientSocket\<close> of \<open>server/Server.h\<close>, its moves, its destructor, the
    erasure from the vector, and the handshake \<open>InitSSL\<close>. Every call to OpenSSL, the sockets
    and the clock is an \<open>event\<close> of a history, and what it answers is a function of the
    history, a field of the record \<open>env\<close>.
  \<^item> \<open>Server_Handlers\<close>: the record \<open>server\<close>, sending, the greeting, all \<open>CallHandler\<close>
    functions and the dispatcher. \<open>Server_Requests\<close>: the server invariant and the outcome of
    every request. \<open>Server_Sends\<close>: which packets a request can send, and to whom.
  \<^item> \<open>Server_Loop\<close>: start-up, \<open>PoolActivity\<close>, \<open>HandleNewConnections\<close>, \<open>ProcessRequests\<close>,
    closing, destruction, and the loop of \<open>server/Main.cpp\<close> as the step relation \<open>step\<close>, in
    which a signal may arrive before any turn. \<open>Server_Runs\<close>: the locales \<open>loop_invariant\<close> and
    \<open>turn_invariant\<close>, which lift what each operation keeps to every reachable state, and
    their interpretations. \<open>Server_Tls\<close>: the life of TLS objects over a whole run.
  \<^item> \<open>Logging\<close>: \<open>common/Logging\<close>. \<open>Server_Options\<close>: options, launch and daemon of
    \<open>server/Main.cpp\<close>.
  \<^item> \<open>Client_Program\<close>: \<open>client/Client\<close>, connecting, requests, replies. \<open>Client_CLI\<close>:
    \<open>client/Main.cpp\<close>, the command interpreter, the thread that polls for replies, and \<open>main\<close>.
  \<^item> \<open>Chat_Service\<close>: an abstract chat service, and that the server refines it. This theory:
    the two programs together.

  \<^bold>\<open>State.\<close> The fields of \<open>server\<close>, \<open>ClientSocket\<close>, \<open>client\<close> and \<open>Logger\<close> are the members of
  the classes; the singletons for rooms and counter are the fields \<open>rooms\<close> and
  \<open>m_Counter\<close> of \<open>server\<close>. \<open>hist\<close>, \<open>wire\<close>, \<open>console\<close> and \<open>fd_calls\<close> record what a program did
  to the outside. A statement that throws, or whose behaviour is undefined, ends in a
  left value with the fault. Iterators of the client vector are positions.

  \<^bold>\<open>What is shown.\<close> For single requests: every outcome of joining, saying, private messages,
  addition, listing and broadcasting, and the only three faults a request can cause in a
  state that satisfies the invariant. For the server as a whole: the invariant, the
  counter, the states and the TLS objects in every reachable state; that a turn reads every
  ready client once; what a hang-up, a signal and each failure at start-up lead to. For the
  client: which lines run which command, which requests are sent, which replies end it, that
  replies never change what is sent, how the program ends. For both: that the client can
  read whatever the server sends, refinement of the service over any sequence of
  requests, replies that are shown as what they are, and three commands from end to end.
  Several theorems state a defect of the code exactly, such as the destructor that uses a
  freed TLS object or the table that an unknown room number enlarges.

  \<^bold>\<open>Bounds and termination.\<close> No definition uses fuel. The loops over buffers, payloads and
  vectors have measures; the handshake loop, which polls until a deadline, is a partial
  function to \<open>option\<close> and is proved to return when the clock advances. The client counter
  has 64 bits; the invariant is claimed for histories shorter than \<open>2\<^sup>6\<^sup>4\<close> calls, within
  which it cannot wrap. The exact sum of an addition is claimed up to \<open>2\<^sup>5\<^sup>3\<close>.

  \<^bold>\<open>Assumptions on the outside.\<close> Where a theorem needs one it is a named hypothesis:
  \<open>clock_progress\<close> (the steady clock passes every bound), \<open>alloc_fresh\<close> (\<open>SSL_new\<close> returns no
  object in use), the length of a SHA-256 digest, and the write results of the TLS layer.

  \<^bold>\<open>Not modelled.\<close> SQLite, OpenSSL and the kernel (parameters); \<open>DebugUtils.h\<close>, which the
  repository does not contain, with the exception class and its dialogue box; the fixed
  words of console output, the log lines of the server, and \<open>print_number\<close>, which is never
  called; the Windows branches; \<open>Singleton.h\<close> and \<open>NetworkHeaders.h\<close>, which hold no logic. The
  client's two threads are interleaved by whole polls and whole commands; a poll that
  overlaps a command races with it on \<open>m_pingStart\<close> and on the TLS object, which has no
  defined behaviour to model.
\<close>

section \<open>From a typed line to the answer on the screen\<close>

lemma is_word_show_nat: "is_word (show_nat n)"
proof -
  have "\<not> is_space c" if "c \<in> set (show_nat n)" for c
  proof
    assume "is_space c"
    then have "\<not> is_dig 10 c" by (auto simp: is_space_def is_dig_def dig_val_def char_digit_def Let_def)
    with show_nat_digits [OF that] show False by simp
  qed
  then show ?thesis by (simp add: is_word_def)
qed

lemma run_line_words:
  assumes "list_all is_word ws" and "ws \<noteq> []" and "hd ws \<noteq> ''exit''" and "hd ws \<noteq> ''quit''"
    and "find_command ws = (cmd, args)" and "cmd \<noteq> []"
  shows "run_line X (unwords ws) cl = Some (case run_command X cmd args cl of
    Inl f \<Rightarrow> notice (''Error: '' @ what f) cl | Inr cl1 \<Rightarrow> cl1)"
proof -
  have t: "tokenize (unwords ws) = ws" by (rule tokenize_unwords [OF assms(1)])
  then have "unwords ws \<noteq> []" using assms(2) by (auto simp: tokenize.simps)
  with t assms show ?thesis by (simp add: run_line_def split: sum.split)
qed

lemma run_line_join:
  assumes "is_word pwd" and "n \<le> 255"
  shows "\<exists>cl'. run_line X (unwords [''chat'', ''join'', show_nat n, pwd]) cl = Some cl'
    \<and> wire cl' = wire cl @ [request_packet (c_host X) (Rq_join (word_of_nat n) (SHA256 X (ascii pwd)))]"
proof -
  let ?ws = "[''chat'', ''join'', show_nat n, pwd]"
  have words: "list_all is_word ?ws"
    using assms(1) is_word_show_nat by (simp add: is_word_def is_space_def of_char_def)
  have found: "find_command ?ws = (''chat join'', [show_nat n, pwd])"
    by (simp add: find_command_two commands_def)
  have "parse_number (c_fpe X) (show_nat n) = Inr (Uint8 (word_of_nat n))"
    using assms(2) narrow_positive_of_nat [of n] by (simp add: parse_number_show_nat)
  then have "run_command X ''chat join'' [show_nat n, pwd] cl =
      Inr (sendJoinRoomRequest X (word_of_nat n) (ascii pwd) cl)"
    by (simp add: run_command_def cmd_join_def number_arg_def is_uint8_t_def)
  then show ?thesis
    using run_line_words [OF words _ _ _ found] by (simp add: sendJoinRoomRequest_def)
qed

text \<open>
  C5. Joining a room, from end to end. The line that asks to join a known room with a
  password makes the client send one packet; when the server has read it, the user is a
  member of that room exactly if the room is open or its stored digest is the one of the
  password, and the reply, shown by the client, says so; otherwise the client shows that
  the password was wrong and nothing has changed for the user.
\<close>

theorem join_end_to_end:
  assumes "server_inv s" and "digests_ok (rooms s)" and "i < length (m_ClientSocket s)"
    and "is_word pwd" and "n \<le> 255" and "length (SHA256 X (ascii pwd)) = 32"
    and "rooms s (word_of_nat n) = Some room"
  shows "\<exists>cl' pkt t reply. run_line X (unwords [''chat'', ''join'', show_nat n, pwd]) cl = Some cl'
    \<and> wire cl' = wire cl @ [pkt]
    \<and> serve E i pkt (deliver i pkt s) = Inr t
    \<and> sent (hist t) = sent (hist s) @ [(ssl (m_ClientSocket s ! i), reply)]
    \<and> (if passwordHash room = [] \<or> passwordHash room = SHA256 X (ascii pwd)
       then service_of t = (service_of s)\<lparr>members := enter (clientID (m_ClientSocket s ! i)) (word_of_nat n)
               (members (service_of s))\<rparr>
            \<and> decode_reply X reply cl' = Inr (Room_joined (show_nat n))
       else service_of t = service_of s
            \<and> decode_reply X reply cl' = Inr (Room_refused (err_code ERR_INVALID_ROOM_PASSWORD) ''Invalid room password.''))"
proof -
  let ?rq = "Rq_join (word_of_nat n) (SHA256 X (ascii pwd))"
  let ?pkt = "request_packet (c_host X) ?rq" and ?c = "m_ClientSocket s ! i"
  define ok where "ok \<longleftrightarrow> passwordHash room = [] \<or> passwordHash room = SHA256 X (ascii pwd)"
  define rp where "rp = (if ok then Rp_joined (word_of_nat n) else Rp_join_refused ERR_INVALID_ROOM_PASSWORD)"
  obtain cl' where cl': "run_line X (unwords [''chat'', ''join'', show_nat n, pwd]) cl = Some cl'"
    "wire cl' = wire cl @ [?pkt]"
    using run_line_join [OF assms(4,5), of X cl] by blast
  have fits: "request_ok ?rq" "length ?pkt \<le> BUFFER_SIZE" using assms(6) by (simp_all add: BUFFER_SIZE_def)
  from serve_refines [OF assms(1,3,2) fits, of E] obtain t where
    t: "serve E i ?pkt (deliver i ?pkt s) = Inr t" and ref: "refines E i ?rq s t" by blast
  have room: "roomtab (service_of s) (word_of_nat n) = Some room" using assms(7) by (simp add: service_of_def)
  have me: "addr s (clientID ?c) = ssl ?c" using assms(1,3) by (simp add: addr_client)
  have n: "unat (word_of_nat n :: u8) = n" using assms(5) by (simp add: unat_of_nat)
  have reply: "sent (hist t) = sent (hist s) @ [(ssl ?c, reply_packet (host E) rp)]"
    and after: "service_of t = (if ok then (service_of s)\<lparr>members := enter (clientID ?c) (word_of_nat n)
        (members (service_of s))\<rparr> else service_of s)"
    using ref room me by (auto simp: refines_def ok_def rp_def)
  have view: "decode_reply X (reply_packet (host E) rp) cl' =
      Inr (if ok then Room_joined (show_nat n)
           else Room_refused (err_code ERR_INVALID_ROOM_PASSWORD) ''Invalid room password.'')"
    by (simp add: rp_def decode_reply_def join_ok_view_def join_err_view_def from_payload_eq n)
  show ?thesis
    unfolding ok_def [symmetric]
    by (intro exI conjI, rule cl'(1), rule cl'(2), rule t, rule reply) (simp add: after view)
qed

definition sample_client_env :: client_env where
  "sample_client_env =
     \<lparr>c_host = Little_endian, c_fpe = sse_fp_env, SHA256 = (\<lambda>bs. replicate 32 (171 + of_nat (length bs - 6))),
      c_now = (\<lambda>cl. 0), c_write_ret = (\<lambda>cl p. int (length p))\<rparr>"

theorem join_end_to_end_witness:
  "\<exists>cl' pkt t reply. run_line sample_client_env (unwords [''chat'', ''join'', show_nat 9, ''secret'']) Client_new = Some cl'
    \<and> wire cl' = [pkt] \<and> serve sample_env 1 pkt (deliver 1 pkt (sample_server [])) = Inr t
    \<and> sent (hist t) = [(Some 2, reply)]
    \<and> decode_reply sample_client_env reply cl' = Inr (Room_joined (show_nat 9))"
proof -
  let ?s = "sample_server []"
  let ?room = "\<lparr>name = ascii ''vault'', passwordHash = replicate 32 171\<rparr> :: ChatRoom"
  have dig: "digests_ok (rooms ?s)" by (auto simp: digests_ok_def sample_server_def ran_def)
  have w: "is_word ''secret''" by (simp add: is_word_def is_space_def of_char_def)
  have len: "length (SHA256 sample_client_env (ascii ''secret'')) = 32" by (simp add: sample_client_env_def)
  have room: "rooms ?s (word_of_nat 9) = Some ?room" by (simp add: sample_server_def)
  have h: "passwordHash ?room = SHA256 sample_client_env (ascii ''secret'')" by (simp add: sample_client_env_def)
  show ?thesis
    using join_end_to_end [OF sample_server_inv [of "[]"] dig _ w _ len room, of 1 Client_new sample_env] h
    by (auto simp: ClientSocket_new_def Client_new_def)
qed

lemma parse_numbers_show_nat:
  "\<forall>n \<in> set ns. n < 2 ^ 64 \<Longrightarrow>
     parse_numbers P (map show_nat ns) = Inr (map (\<lambda>n. narrow_positive (word_of_nat n)) ns)"
  by (induction ns) (simp_all add: parse_number_show_nat)

lemma run_line_add:
  assumes "2 \<le> length ns" and "length ns \<le> 454" and "\<forall>n \<in> set ns. n < 2 ^ 64"
  shows "\<exists>cl'. run_line X (unwords (''add'' # map show_nat ns)) cl = Some cl'
    \<and> wire cl' = wire cl @ [packet_header (c_host X) CMSG_ADDITION_REQUEST @
        concat (map (tagged (c_host X)) (map (\<lambda>n. narrow_positive (word_of_nat n)) ns))]"
proof -
  let ?nums = "map (\<lambda>n. narrow_positive (word_of_nat n)) ns"
  from assms(1) obtain a b rest where ns: "ns = a # b # rest"
    by (cases ns; cases "tl ns") auto
  have words: "list_all is_word (''add'' # map show_nat ns)"
    using is_word_show_nat by (simp add: list_all_iff is_word_def is_space_def of_char_def)
  have found: "find_command (''add'' # map show_nat ns) = (''add'', map show_nat ns)"
    by (simp add: ns find_command_two commands_def)
  have fits: "2 + length (concat (map (tagged (c_host X)) ?nums)) \<le> 4096"
    using length_concat_tagged_upper [of "c_host X" ?nums] assms(2) by simp
  have "run_command X ''add'' (map show_nat ns) cl = Inr (sendAdditionRequest X ?nums cl)"
    using assms(1) parse_numbers_show_nat [OF assms(3), of "c_fpe X"]
    by (simp add: run_command_def cmd_add_def)
  moreover have "wire (sendAdditionRequest X ?nums cl) = wire cl @
      [packet_header (c_host X) CMSG_ADDITION_REQUEST @ concat (map (tagged (c_host X)) ?nums)]"
    using assms(1) fits by (simp add: sendAdditionRequest_def append_numbers_eq Let_def)
  ultimately show ?thesis
    using run_line_words [OF words _ _ _ found] by simp
qed

lemma prefix_sums_bounded:
  "x \<in> set (prefix_sums (int a) (map int ns)) \<Longrightarrow> 0 \<le> x \<and> x \<le> int (a + sum_list ns)"
proof (induction ns arbitrary: a)
  case (Cons n ns)
  then consider "x = int a" | "x \<in> set (prefix_sums (int (a + n)) (map int ns))" by auto
  then show ?case
  proof cases
    case 2
    from Cons.IH [OF this] show ?thesis by simp
  qed simp
qed simp

lemma sum_list_map_int: "sum_list (map int ns) = int (sum_list ns)"
  by (induction ns) simp_all

text \<open>
  C6. Adding numbers, from end to end: for at least two and up to 454 whole numbers whose
  sum is at most \<open>2\<^sup>5\<^sup>3\<close>, typed in decimal behind the command, the server answers the one
  packet that the client sends, and the client shows exactly their sum, with six zero
  decimals, provided that both run on machines of the same byte order.
\<close>

theorem add_end_to_end:
  assumes "2 \<le> length ns" and "length ns \<le> 454" and "sum_list ns \<le> 2 ^ 53"
    and "c_host X = host E"
  shows "\<exists>cl' pkt t reply. run_line X (unwords (''add'' # map show_nat ns)) cl = Some cl'
    \<and> wire cl' = wire cl @ [pkt]
    \<and> serve E i pkt (deliver i pkt s) = Inr t
    \<and> sent (hist t) = sent (hist s) @ [(ssl (m_ClientSocket s ! i), reply)]
    \<and> decode_reply X reply cl' = Inr (Result_line (show_nat (sum_list ns) @ ''.000000''))"
proof -
  let ?nums = "map (\<lambda>n. narrow_positive (word_of_nat n)) ns"
  let ?pkt = "packet_header (host E) CMSG_ADDITION_REQUEST @ concat (map (tagged (host E)) ?nums)"
  let ?reply = "packet_header (host E) SMSG_ADDITION_REQUEST @ mem_bytes (host E) (double_of_int (int (sum_list ns)))"
  have bound: "int (sum_list ns) \<le> 2 ^ 53"
    using of_nat_mono [OF assms(3), where 'a = int] by simp
  have each: "n \<le> 2 ^ 53" if "n \<in> set ns" for n
  proof -
    have "n \<le> sum_list ns" using that by (rule member_le_sum_list) simp
    then show ?thesis using assms(3) by (rule order_trans)
  qed
  have small: "n < 2 ^ 64" if "n \<in> set ns" for n
    using each [OF that] by (rule order_le_less_trans) simp
  obtain cl' where cl': "run_line X (unwords (''add'' # map show_nat ns)) cl = Some cl'"
    "wire cl' = wire cl @ [?pkt]"
    using run_line_add [OF assms(1,2), of X cl] small assms(4) by auto
  have "list_all2 (\<lambda>n x. num_int n = Some x \<and> \<bar>x\<bar> \<le> 2 ^ 53) ?nums (map int ns)"
    using each small by (auto simp: list_all2_conv_all_nth num_int_narrow_of_nat)
  moreover have "\<forall>a \<in> set (prefix_sums 0 (map int ns)). \<bar>a\<bar> \<le> 2 ^ 53"
  proof
    fix a
    assume "a \<in> set (prefix_sums 0 (map int ns))"
    with prefix_sums_bounded [of a 0 ns] have "0 \<le> a" "a \<le> int (sum_list ns)" by simp_all
    with bound show "\<bar>a\<bar> \<le> 2 ^ 53" by linarith
  qed
  ultimately have total: "fold (\<lambda>n acc. double_add (fpe E) acc (number_to_double (fpe E) n)) ?nums 0 =
      double_of_int (int (sum_list ns))"
    using fold_double_add_int [of ?nums "map int ns" 0 "fpe E"] by (simp add: sum_list_map_int)
  have len: "2 \<le> length ?nums" using assms(1) by simp
  have "CallHandler E i (length ?pkt) (deliver i ?pkt s) =
      Inr (SendSSLPacketToClientSocket E (m_ClientSocket s ! i) ?reply (deliver i ?pkt s))"
    using add_call [of "deliver i ?pkt s" "host E" E ?nums i, OF received_deliver len] total
    by (simp add: deliver_def)
  then have t: "serve E i ?pkt (deliver i ?pkt s) =
      Inr (SendSSLPacketToClientSocket E (m_ClientSocket s ! i) ?reply (deliver i ?pkt s))"
    by (simp add: serve_def)
  have reply: "sent (hist (SendSSLPacketToClientSocket E (m_ClientSocket s ! i) ?reply (deliver i ?pkt s))) =
      sent (hist s) @ [(ssl (m_ClientSocket s ! i), ?reply)]"
    by (simp add: deliver_def)
  have "\<bar>int (sum_list ns)\<bar> \<le> 2 ^ 53" using bound by simp
  from show_double_of_int [OF this]
  have view: "decode_reply X ?reply cl' = Inr (Result_line (show_nat (sum_list ns) @ ''.000000''))"
    by (simp add: decode_reply_def addition_view_def assms(4) mem64.dec_enc show_int_def)
  show ?thesis
    by (intro exI conjI, rule cl'(1), rule cl'(2), rule t, rule reply, rule view)
qed

theorem add_end_to_end_witness:
  "\<exists>cl' pkt t reply. run_line sample_client_env (unwords (''add'' # map show_nat [2, 40])) Client_new = Some cl'
    \<and> wire cl' = [pkt] \<and> serve sample_env 1 pkt (deliver 1 pkt (sample_server [])) = Inr t
    \<and> sent (hist t) = [(Some 2, reply)]
    \<and> decode_reply sample_client_env reply cl' = Inr (Result_line (show_nat 42 @ ''.000000''))"
proof -
  have "c_host sample_client_env = host sample_env" by (simp add: sample_client_env_def sample_env_def)
  then show ?thesis
    using add_end_to_end [of "[2, 40]" sample_client_env sample_env Client_new 1 "sample_server []"]
    by (auto simp: ClientSocket_new_def Client_new_def)
qed

text \<open>The lines that the client prints for the connected clients.\<close>

definition shown_client :: "u64 \<Rightarrow> ClientSocket \<Rightarrow> bytes" where
  "shown_client self d = list_entry (clientID d) (ascii (if clientID d = self then ''<unk> (you)'' else ''<unk>''))"

lemma client_list_step:
  assumes "length pre = offset" and "length nm = unat (k :: u16)"
  shows "client_list_loop e (pre @ be_bytes cid @ be_bytes k @ nm @ rest) offset acc =
    client_list_loop e (pre @ be_bytes cid @ be_bytes k @ nm @ rest) (offset + 10 + length nm)
      (acc @ list_entry cid nm)"
proof -
  let ?p = "pre @ be_bytes cid @ be_bytes k @ nm @ rest"
  have i: "to_net e (of_mem e (take 8 (drop offset ?p))) = cid"
    by (rule net64.dec_at [OF assms(1)])
  have "to_net e (of_mem e (take 2 (drop (offset + 8) ((pre @ be_bytes cid) @ be_bytes k @ nm @ rest)))) = k"
    by (rule net16.dec_at) (simp add: assms(1))
  then have sz: "to_net e (of_mem e (take 2 (drop (offset + 8) ?p))) = k" by simp
  have name: "take (unat k) (drop (offset + 8 + 2) ?p) = nm"
    using assms by simp
  have fits: "\<not> length ?p < offset + 8 + 2" "\<not> length ?p < offset + 8 + 2 + unat k" "offset < length ?p"
    using assms by simp_all
  have off: "offset + 8 + 2 + unat k = offset + 10 + length nm" using assms(2) by simp
  show ?thesis
    by (subst client_list_loop.simps) (simp only: Let_def i sz name fits fits(2) [unfolded off] off if_True if_False)
qed

lemma client_list_loop_listed:
  assumes "length pre = offset"
  shows "client_list_loop e (pre @ concat (map (listed self) cs)) offset acc =
    acc @ concat (map (shown_client self) cs)"
  using assms
proof (induction cs arbitrary: pre offset acc)
  case Nil
  then show ?case by (simp add: client_list_loop.simps)
next
  case (Cons d cs)
  define nm where "nm = ascii (if clientID d = self then ''<unk> (you)'' else ''<unk>'')"
  define k :: u16 where "k = (if clientID d = self then 11 else 5)"
  have nk: "length nm = unat k" by (simp add: nm_def k_def)
  have d: "listed self d = be_bytes (clientID d) @ be_bytes k @ nm"
    by (simp add: listed_def nm_def k_def)
  let ?rest = "concat (map (listed self) cs)"
  have "client_list_loop e (pre @ listed self d @ ?rest) offset acc =
      client_list_loop e ((pre @ listed self d) @ ?rest) (offset + 10 + length nm) (acc @ list_entry (clientID d) nm)"
    using client_list_step [OF Cons.prems nk, of e "clientID d" ?rest acc] by (simp add: d)
  also have "\<dots> = (acc @ list_entry (clientID d) nm) @ concat (map (shown_client self) cs)"
    by (rule Cons.IH) (simp add: d Cons.prems)
  finally show ?case by (simp add: shown_client_def [of self d] nm_def)
qed

text \<open>
  C7. The list of clients, from end to end: for the command that asks for it, as long as
  at most 272 clients are connected, the client prints one line per connected client, in
  order of connection, with the number that the server gave it and with its own line
  marked; beyond that it prints that there are too many. The two machines may differ in
  byte order.
\<close>

theorem client_list_end_to_end:
  assumes "server_inv s" and "i < length (m_ClientSocket s)"
  shows "\<exists>cl' pkt t reply. run_line X ''client get-clients'' cl = Some cl'
    \<and> wire cl' = wire cl @ [pkt]
    \<and> serve E i pkt (deliver i pkt s) = Inr t
    \<and> sent (hist t) = sent (hist s) @ [(ssl (m_ClientSocket s ! i), reply)]
    \<and> decode_reply X reply cl' = Inr (Client_list
        (if length (m_ClientSocket s) \<le> 272
         then ascii ''[valid client list]\<newline>'' @
           concat (map (shown_client (clientID (m_ClientSocket s ! i))) (m_ClientSocket s))
         else ascii ''[too much clients]\<newline>''))"
proof -
  let ?pkt = "packet_header (c_host X) CMSG_GET_CLIENT_LIST"
  let ?s = "deliver i ?pkt s" and ?self = "clientID (m_ClientSocket s ! i)"
  define few where "few \<longleftrightarrow> length (m_ClientSocket s) \<le> 272"
  define body where "body = (if few
    then err_code ERR_OK # concat (map (listed ?self) (m_ClientSocket s)) else [err_code ERR_TOO_MUCH_CLIENTS])"
  define cl' where "cl' = sendGetClients X cl"
  have words: "list_all is_word [''client'', ''get-clients'']"
    by (simp add: is_word_def is_space_def of_char_def)
  have found: "find_command [''client'', ''get-clients''] = (''client get-clients'', [])"
    by (simp add: find_command_two commands_def)
  have line: "run_line X ''client get-clients'' cl = Some cl'"
    using run_line_words [OF words _ _ _ found, of X cl] by (simp add: run_command_def cl'_def)
  have wire: "wire cl' = wire cl @ [?pkt]"
    by (simp add: cl'_def sendGetClients_def sendSSLOpcodeToServer_def)
  have inv: "server_inv ?s"
    unfolding deliver_def by (rule server_inv_received [OF assms(1)]) (simp add: BUFFER_SIZE_def)
  have same: "m_ClientSocket ?s = m_ClientSocket s" "sent (hist ?s) = sent (hist s)" by (simp_all add: deliver_def)
  have rcv: "received ?s (packet_header (c_host X) CMSG_GET_CLIENT_LIST @ [])"
    using received_deliver [of i ?pkt s] by simp
  have t: "serve E i ?pkt ?s = Inr (CallHandlerGetClientList E i ?s)"
    by (simp add: serve_def CallHandler_def received_opcode [OF rcv])
  have reply: "sent (hist (CallHandlerGetClientList E i ?s)) =
      sent (hist s) @ [(ssl (m_ClientSocket s ! i), packet_header (host E) SMSG_CLIENT_LIST @ body)]"
    using client_list_sends [OF inv, of i E] assms(2) by (simp add: same body_def few_def)
  have "client_list_loop (c_host X) ([err_code ERR_OK] @ concat (map (listed ?self) (m_ClientSocket s))) 1 acc =
      acc @ concat (map (shown_client ?self) (m_ClientSocket s))" for acc
    by (rule client_list_loop_listed) simp
  then have view: "decode_reply X (packet_header (host E) SMSG_CLIENT_LIST @ body) cl' = Inr (Client_list
        (if few then ascii ''[valid client list]\<newline>'' @
           concat (map (shown_client ?self) (m_ClientSocket s))
         else ascii ''[too much clients]\<newline>''))"
    by (simp add: decode_reply_def client_list_view_def from_payload_eq body_def)
  show ?thesis
    unfolding few_def [symmetric]
    by (intro exI conjI, rule line, rule wire, rule t, rule reply, rule view)
qed

theorem client_list_end_to_end_witness:
  "\<exists>cl' pkt t reply. run_line sample_client_env ''client get-clients'' Client_new = Some cl' \<and> wire cl' = [pkt]
    \<and> serve sample_env 0 pkt (deliver 0 pkt (sample_server [])) = Inr t
    \<and> decode_reply sample_client_env reply cl' = Inr (Client_list
        (ascii ''[valid client list]\<newline>'' @ list_entry 1 (ascii ''<unk> (you)'') @ list_entry 2 (ascii ''<unk>'')))"
  using client_list_end_to_end [OF sample_server_inv [of "[]"], of 0 sample_client_env Client_new sample_env]
  by (auto simp: Client_new_def ClientSocket_new_def shown_client_def)

section \<open>The client can read the server\<close>

lemma server_packet_digestible:
  assumes "server_packet (c_host X) L pkt"
  shows "2 \<le> length pkt" and "\<exists>v. decode_reply X pkt cl = Inr v"
proof -
  have ok: "decode_reply X pkt cl \<noteq> Inl f" for f
    using assms by (rule server_packetE) (auto simp: decode_reply_Inl_iff simp del: length_drop)
  then show "\<exists>v. decode_reply X pkt cl = Inr v" by (cases "decode_reply X pkt cl") auto
  from assms show "2 \<le> length pkt" by (rule server_packetE) auto
qed

lemma server_packet_bound:
  assumes "server_packet e 4096 pkt" and "header_opcode e pkt \<notin> {opcode SMSG_MESSAGE, opcode SMSG_UPTIME}"
  shows "length pkt \<le> 4096"
  using assms(1) by (rule server_packetE) (use assms(2) in auto)

lemma nat_le_two: "nat_le 2 n = [of_nat (n mod 256), of_nat (n div 256 mod 256)]"
  unfolding numeral_2_eq_2 by simp

lemma invalid_packet_view:
  "decode_reply X (ascii ''Invalid packet.'') cl = Inr (Unknown_opcode 0x496E)"
proof -
  have "ascii ''Invalid packet.'' = be_bytes (0x496E :: u16) @ ascii ''valid packet.''"
    by (simp add: ascii_def of_char_def be_bytes_def nat_le_two)
  then have "header_opcode (c_host X) (ascii ''Invalid packet.'') = 0x496E"
    unfolding header_opcode_def by (simp only: net16.dec_front)
  then show ?thesis by (simp add: decode_reply_def)
qed

text \<open>
  C8. The client can read whatever the server answers. Every packet that serving a request
  sends goes to a connected client, has its opcode, and is decoded by a client of the same
  byte order without fault, whatever the request was; except for texts about rooms and the
  uptime it fits the client's buffer of 4096 bytes, so that one read takes it whole. The
  answer to a request of one byte has no opcode; the client takes its first two letters
  for one that it does not know.
\<close>

theorem replies_digestible:
  assumes "server_inv s" and "i < length (m_ClientSocket s)" and "serve E i bs s = Inr t"
    and "c_host X = host E"
  shows "\<exists>out. sent (hist t) = sent (hist s) @ out
    \<and> (\<forall>(q, pkt) \<in> set out. q \<in> ssl ` set (m_ClientSocket s) \<and> 2 \<le> length pkt
         \<and> (\<exists>v. decode_reply X pkt cl = Inr v)
         \<and> (header_opcode (host E) pkt \<notin> {opcode SMSG_MESSAGE, opcode SMSG_UPTIME} \<longrightarrow> length pkt \<le> 4096))
    \<and> (length bs < 2 \<longrightarrow> map (\<lambda>(q, pkt). decode_reply X pkt cl) out = [Inr (Unknown_opcode 0x496E)])"
proof (cases "2 \<le> length bs")
  case True
  with assms(3) have "CallHandler E i (length bs) s = Inr t" by (simp add: serve_def)
  from CallHandler_sends [OF this assms(2)] obtain out where
    "sent (hist t) = sent (hist s) @ out"
    and pkts: "\<forall>(q, pkt) \<in> set out. q \<in> ssl ` set (m_ClientSocket s)
      \<and> server_packet (c_host X) (length (buffer s)) pkt"
    unfolding sends_def assms(4) by blast
  moreover have "length (buffer s) = 4096" using assms(1) by (simp add: server_inv_def BUFFER_SIZE_def)
  ultimately show ?thesis
    using True server_packet_digestible(1) [of X 4096] server_packet_digestible(2) [of X 4096 _ cl]
      server_packet_bound [of "c_host X"] assms(4)
    by (intro exI [of _ out]) auto
next
  case False
  let ?m = "ascii ''Invalid packet.''" and ?q = "ssl (m_ClientSocket s ! i)"
  from False assms(3) have "sent (hist t) = sent (hist s) @ [(?q, ?m)]"
    by (auto simp: serve_def Let_def)
  then show ?thesis
    using assms(2) invalid_packet_view [of X cl]
    by (intro exI [of _ "[(?q, ?m)]"]) (auto simp: ascii_def)
qed

theorem replies_digestible_witness:
  "\<exists>t. serve sample_env 0 [1] (sample_server [1]) = Inr t
    \<and> map (\<lambda>(q, pkt). decode_reply sample_client_env pkt Client_new) (sent (hist t)) = [Inr (Unknown_opcode 0x496E)]"
proof -
  obtain t where t: "serve sample_env 0 [1] (sample_server [1]) = Inr t"
    by (simp add: serve_def Let_def)
  have "0 < length (m_ClientSocket (sample_server [1]))" "c_host sample_client_env = host sample_env"
    by (simp_all add: sample_client_env_def sample_env_def)
  with replies_digestible [OF sample_server_inv [of "[1]"] _ t, of sample_client_env Client_new] t
  show ?thesis by auto
qed

end
